theory Spec2Isabelle
  imports Complex_Main "HOL-Library.Log_Nat"
begin

section \<open>The measurement-control engine of PycQED (measurement\_control.py)\<close>

text \<open>
  A shallow embedding of \<^verbatim>\<open>MeasurementControl\<close>. The engine object is a record that every
  method takes and returns; a method that can raise returns a pair of its outcome
  (\<open>Inl\<close> the exception, \<open>Inr\<close> the returned value) and the engine as the exception
  left it, because Python keeps every mutation made before a \<^verbatim>\<open>raise\<close>.

  Conventions of the embedding:
  \<^item> The values measured and the sweep points are read as real numbers. The chunk
    arithmetic of \<^verbatim>\<open>measure_hard\<close>, whose results are truncated to row numbers, is done
    in doubles: \<^verbatim>\<open>/\<close> is Python 3 true division and every operation rounds to the
    nearest double (\<open>fl\<close> below). Row counts stay below \<open>2 ^ 53\<close>, where every whole number
    is a double.
  \<^item> Python compares the mode with \<^verbatim>\<open>==\<close> in \<^verbatim>\<open>run\<close> and with \<^verbatim>\<open>is\<close> in \<^verbatim>\<open>measure_hard\<close>.
    The engine therefore holds the characters of the mode and, apart, whether the string
    object is the interned constant of the source with those characters
    (\<open>mode_interned\<close>): a mode written as a literal is, a mode computed at run time is not.
  \<^item> A sweep point, a vector of detector values and a coordinate vector are lists of
    their components; a scalar is the list of its one component (\<^verbatim>\<open>np.size(x) == 1\<close>
    makes the code wrap it into \<^verbatim>\<open>[x]\<close>).
  \<^item> Sweep functions and the detector are external objects. What the engine tells them
    is appended to the event trace \<open>events\<close>; what the detector answers is a function of
    the trace so far, so that its readings may depend on everything done before.
    Their methods are taken not to raise.
  \<^item> The plot window, the progress printing and the persistent container around the
    table (\<^verbatim>\<open>initialize_plot_monitor\<close>, \<^verbatim>\<open>update_plotmon\<close>, \<^verbatim>\<open>print_progress_*\<close>,
    \<^verbatim>\<open>save_*_settings\<close>, the \<^verbatim>\<open>QtPlot\<close> window) are external and taken not to raise: they
    write neither the table, nor the sweep points, nor a notification. The 2D
    visualisation buffer \<^verbatim>\<open>TwoD_array\<close> is part of the engine: whether the attribute exists
    decides what \<^verbatim>\<open>measurement_function\<close> and \<^verbatim>\<open>measure_hard\<close> do after a write, and the
    statements that allocate and index it raise.
\<close>

subsection \<open>Exceptions, notifications, arrays\<close>

datatype error =
    ValueError
  | TypeError
  | IndexError
  | AttributeError
  | KeyError
  | ZeroDivisionError
  | StopIteration
  | StoreError                \<comment> \<open>raised by the dataset store: selection out of range, shapes that do not broadcast\<close>
  | OptimizerError            \<comment> \<open>raised by the external optimizer itself\<close>
  | ModeNotRecognized         \<comment> \<open>\<^verbatim>\<open>ValueError('mode %s not recognized')\<close>\<close>
  | NotSameType               \<comment> \<open>\<^verbatim>\<open>Exception('Sweep and Detector functions not of the same type.')\<close>\<close>
  | HardNotGeneralized        \<comment> \<open>\<^verbatim>\<open>Exception('hard measurements have not been generalized to N-D yet')\<close>\<close>
  | OptimizerNotRecognized    \<comment> \<open>\<^verbatim>\<open>Exception('optimization function: "%s" not recognized')\<close>\<close>

text \<open>A numpy array of sweep points: one-dimensional, or two-dimensional as its list of rows.\<close>

datatype pts = Pts1 "real list" | Pts2 "real list list"

text \<open>What a hard detector's \<^verbatim>\<open>get_values()\<close> returns: one channel, or a list of channels.\<close>

datatype hard_values = Block1 "real list" | Block2 "real list list"

datatype event =
    Prepare nat               \<comment> \<open>\<^verbatim>\<open>sweep_functions[i].prepare()\<close>\<close>
  | SetParameter nat real     \<comment> \<open>\<^verbatim>\<open>sweep_functions[i].set_parameter(v)\<close>\<close>
  | Finish nat                \<comment> \<open>\<^verbatim>\<open>sweep_functions[i].finish()\<close>\<close>
  | DetPrepare "pts option"   \<comment> \<open>\<^verbatim>\<open>detector_function.prepare(sweep_points=...)\<close>\<close>
  | AcquireDataPoint          \<comment> \<open>\<^verbatim>\<open>detector_function.acquire_data_point()\<close>\<close>
  | GetValues                 \<comment> \<open>\<^verbatim>\<open>detector_function.get_values()\<close>\<close>
  | DetFinish                 \<comment> \<open>\<^verbatim>\<open>detector_function.finish()\<close>\<close>

record sweep_function =
  sweep_control :: string
  sweep_points :: "pts option"     \<comment> \<open>the attribute \<^verbatim>\<open>sweep_points\<close>, \<open>None\<close> while it is not attached\<close>

record detector_function =
  detector_control :: string
  value_names :: "string list"
  acquire_data_point :: "event list \<Rightarrow> real list"
  get_values :: "event list \<Rightarrow> hard_values"

subsection \<open>The external optimizer and the adaptive parameters\<close>

text \<open>
  An optimizer is a callable that receives the objective and calls it as often as it
  likes: it returns, or raises, or asks for the objective at a point and goes on with
  the answer. Every optimizer of this type returns after finitely many calls.
\<close>

datatype optimizer =
    OptReturn
  | OptRaise
  | OptCall "real list" "real list \<Rightarrow> optimizer"

type_synonym kwargs = "(string \<times> real list) list"

text \<open>
  The values the key \<^verbatim>\<open>'adaptive_function'\<close> can hold, by what the code asks of them:
  a string, a plain Python function (the only values whose \<^verbatim>\<open>type\<close> is
  \<^verbatim>\<open>types.FunctionType\<close>), another callable (a bound method, a builtin, a
  \<^verbatim>\<open>functools.partial\<close>, an object with \<^verbatim>\<open>__call__\<close>) or a value that cannot be called.
\<close>

datatype adaptive_function_value =
    PyStr string
  | PyFunction "kwargs \<Rightarrow> optimizer"
  | PyCallable "kwargs \<Rightarrow> optimizer"
  | PyNotCallable

datatype x_scale_value = ScaleScalar real | ScaleVector "real list"

text \<open>The dictionary of adaptive parameters; \<open>None\<close> is an absent key.\<close>

record af_pars_dict =
  key_adaptive_function :: "adaptive_function_value option"
  key_x_scale :: "x_scale_value option"
  key_minimize :: "bool option"
  key_f_termination :: "real option"
  key_others :: kwargs

subsection \<open>The result table\<close>

text \<open>
  The resizable dataset of the store: its rows and its fixed number of columns (a table
  of no rows still has columns). New cells hold the fill value 0.
\<close>

record dataset =
  rows :: "real list list"
  ncols :: nat

definition resize :: "dataset \<Rightarrow> nat \<Rightarrow> dataset" where
  "resize d n =
     d\<lparr>rows := take n (rows d) @ replicate (n - length (rows d)) (replicate (ncols d) 0)\<rparr>"

text \<open>
  Assigning a one-dimensional source to a one-dimensional selection of \<open>count\<close> cells: the
  store accepts a source of that length, or of length 1, which it repeats.
\<close>

definition h5_assign1 :: "nat \<Rightarrow> real list \<Rightarrow> real list option" where
  "h5_assign1 count src =
     (if length src = count then Some src
      else if length src = 1 then Some (replicate count (hd src))
      else None)"

text \<open>
  Assigning a two-dimensional source to a selection of \<open>nr\<close> rows and \<open>nc\<close> columns: each
  dimension of the source has the length of the selection or length 1.
\<close>

definition h5_assign2 :: "nat \<Rightarrow> nat \<Rightarrow> real list list \<Rightarrow> real list list option" where
  "h5_assign2 nr nc src =
     (if (length src = nr \<or> length src = 1) \<and> (\<forall>r \<in> set src. length r = nc \<or> length r = 1)
      then Some (map (\<lambda>i. let r = (if length src = nr then src ! i else hd src)
                           in (if length r = nc then r else replicate nc (hd r))) [0..<nr])
      else None)"

text \<open>Writing \<open>vs\<close> into the cells \<open>[c, c + length vs)\<close> of a row.\<close>

definition put_cells :: "nat \<Rightarrow> real list \<Rightarrow> real list \<Rightarrow> real list" where
  "put_cells c vs row = take c row @ vs @ drop (c + length vs) row"

text \<open>Writing the rows \<open>new\<close> into the columns from \<open>c\<close> on of the table rows from \<open>start\<close> on.\<close>

definition put_block :: "nat \<Rightarrow> nat \<Rightarrow> real list list \<Rightarrow> real list list \<Rightarrow> real list list" where
  "put_block start c new rs =
     take start rs @ map (\<lambda>(vs, row). put_cells c vs row) (zip new (drop start rs))
       @ drop (start + length new) rs"

subsection \<open>Doubles\<close>

text \<open>
  The double nearest to a rational, ties to the even mantissa: the mantissa has 53 bits,
  the exponent is not bounded. A whole number is taken as it is.
\<close>

definition half_even :: "rat \<Rightarrow> int" where
  "half_even q =
     (let f = \<lfloor>q\<rfloor>; d = q - of_int f
      in if d < 1 / 2 then f else if 1 / 2 < d then f + 1 else if even f then f else f + 1)"

definition pow2 :: "int \<Rightarrow> rat" where
  "pow2 e = (if 0 \<le> e then 2 ^ nat e else 1 / 2 ^ nat (- e))"

definition fl :: "rat \<Rightarrow> rat" where
  "fl q =
     (if q = of_int \<lfloor>q\<rfloor> then q
      else
        let a = \<bar>q\<bar>;
            g = bitlen (fst (quotient_of a)) - bitlen (snd (quotient_of a)) - 53;
            e = (if 2 ^ 53 \<le> a / pow2 g then g + 1 else g)
        in sgn q * of_int (half_even (a / pow2 e)) * pow2 e)"

subsection \<open>The engine\<close>

record mc_state =
  mode :: string
  mode_interned :: bool                    \<comment> \<open>the string object of \<^verbatim>\<open>self.mode\<close> is the interned constant\<close>
  sweep_functions :: "sweep_function list"
  detector_function :: detector_function
  mc_sweep_points :: "pts option"          \<comment> \<open>\<^verbatim>\<open>self.sweep_points\<close>\<close>
  sweep_points_2D :: "real list option"
  xlen :: "nat option"
  ylen :: "nat option"
  iteration :: rat
  iteration_is_float :: bool               \<comment> \<open>\<^verbatim>\<open>self.iteration\<close> is a float, not an int\<close>
  complete :: bool
  TwoD_array :: "nat list option"          \<comment> \<open>the shape of the attribute \<^verbatim>\<open>TwoD_array\<close>, \<open>None\<close> while there is none\<close>
  dset :: dataset
  af_pars :: af_pars_dict
  x_scale :: x_scale_value
  minimize_optimization :: bool
  f_termination :: "real option"
  events :: "event list"

type_synonym 'r outcome = "(error + 'r) \<times> mc_state"

definition notify :: "event list \<Rightarrow> mc_state \<Rightarrow> mc_state" where
  "notify es s = s\<lparr>events := events s @ es\<rparr>"

text \<open>\<^verbatim>\<open>create_experimentaldata_dataset\<close>: a table of shape \<^verbatim>\<open>(0, S + V)\<close>.\<close>

definition create_experimentaldata_dataset :: "mc_state \<Rightarrow> mc_state" where
  "create_experimentaldata_dataset s =
     s\<lparr>dset := \<lparr>rows = [],
                ncols = length (sweep_functions s) + length (value_names (detector_function s))\<rparr>\<rparr>"

text \<open>
  \<^verbatim>\<open>update_plotmon_2D\<close>, called after a soft measurement when there is a \<^verbatim>\<open>TwoD_array\<close>. It
  computes \<^verbatim>\<open>x_ind = i % self.xlen\<close> and \<^verbatim>\<open>y_ind = i / self.xlen\<close>, a float, reads the cell
  \<^verbatim>\<open>self.dset[i, z_ind]\<close> of the first value column of the row just written and indexes the
  array with \<^verbatim>\<open>y_ind\<close>: numpy refuses the float index, so the call always raises.
\<close>

definition update_plotmon_2D :: "mc_state \<Rightarrow> unit outcome" where
  "update_plotmon_2D s =
     (case xlen s of
        None \<Rightarrow> (Inl AttributeError, s)
      | Some xl \<Rightarrow>
          if xl = 0 then (Inl ZeroDivisionError, s)
          else if ncols (dset s) \<le> length (sweep_functions s) then (Inl StoreError, s)
          else (Inl IndexError, s))"

text \<open>
  \<^verbatim>\<open>measurement_function(x)\<close>: the parameters are set from the last axis to the first, the
  detector is read, the table grows by one row and the row receives
  \<^verbatim>\<open>np.append(x, vals)\<close>; with a \<^verbatim>\<open>TwoD_array\<close> the 2D buffer is updated before the values are
  returned.
\<close>

definition measurement_function :: "real list \<Rightarrow> mc_state \<Rightarrow> (real list) outcome" where
  "measurement_function x s =
     (let S = length (sweep_functions s) in
      if length x \<noteq> S then (Inl ValueError, s)
      else
        let s1 = notify (map (\<lambda>j. SetParameter j (x ! j)) (rev [0..<S])) s;
            n = length (rows (dset s1));
            s2 = s1\<lparr>iteration := of_nat (n + 1), iteration_is_float := False\<rparr>;
            vals = acquire_data_point (detector_function s2) (events s2);
            s3 = notify [AcquireDataPoint] s2;
            s4 = s3\<lparr>dset := resize (dset s3) (n + 1)\<rparr>
        in case h5_assign1 (ncols (dset s4)) (x @ vals) of
             None \<Rightarrow> (Inl StoreError, s4)
           | Some row \<Rightarrow>
               let s5 = s4\<lparr>dset := (dset s4)\<lparr>rows := (rows (dset s4))[n := row]\<rparr>\<rparr> in
               (case TwoD_array s5 of
                  None \<Rightarrow> (Inr vals, s5)
                | Some a \<Rightarrow>
                    (case update_plotmon_2D s5 of
                       (Inl e, s6) \<Rightarrow> (Inl e, s6)
                     | (Inr u, s6) \<Rightarrow> (Inr vals, s6))))"

text \<open>Iterating over an array of sweep points gives its scalars, or its rows.\<close>

fun iter_pts :: "pts \<Rightarrow> real list list" where
  "iter_pts (Pts1 xs) = map (\<lambda>x. [x]) xs"
| "iter_pts (Pts2 rs) = rs"

fun soft_loop :: "real list list \<Rightarrow> mc_state \<Rightarrow> unit outcome" where
  "soft_loop [] s = (Inr (), s)"
| "soft_loop (p # ps) s =
     (case measurement_function p s of
        (Inl e, s') \<Rightarrow> (Inl e, s')
      | (Inr vals, s') \<Rightarrow> soft_loop ps s')"

definition measure_soft_static :: "mc_state \<Rightarrow> unit outcome" where
  "measure_soft_static s =
     (case mc_sweep_points s of
        None \<Rightarrow> (Inl AttributeError, s)
      | Some P \<Rightarrow> soft_loop (iter_pts P) s)"

subsection \<open>Sweep points\<close>

text \<open>
  \<^verbatim>\<open>np.array(sweep_points)\<close> copies an array-like into a fresh array of the same elements;
  the values of the model carry no identity, so the conversion keeps them as they are.
\<close>

definition np_array :: "pts \<Rightarrow> pts" where
  "np_array p = p"

definition set_sweep_points :: "pts \<Rightarrow> mc_state \<Rightarrow> unit outcome" where
  "set_sweep_points p s =
     (let s1 = s\<lparr>mc_sweep_points := Some (np_array p)\<rparr> in
      case sweep_functions s1 of
        [] \<Rightarrow> (Inl IndexError, s1)
      | f # fs \<Rightarrow> (Inr (), s1\<lparr>sweep_functions := f\<lparr>sweep_points := Some (np_array p)\<rparr> # fs\<rparr>))"

definition get_sweep_points :: "mc_state \<Rightarrow> error + pts" where
  "get_sweep_points s =
     (case sweep_functions s of
        [] \<Rightarrow> Inl IndexError
      | f # fs \<Rightarrow> (case sweep_points f of None \<Rightarrow> Inl AttributeError | Some P \<Rightarrow> Inr P))"

subsection \<open>Hard acquisition\<close>

text \<open>The transpose of an array given as its list of rows.\<close>

definition np_T :: "real list list \<Rightarrow> real list list" where
  "np_T m = (case m of [] \<Rightarrow> [] | c # cs \<Rightarrow> map (\<lambda>j. map (\<lambda>ch. ch ! j) m) [0..<length c])"

text \<open>\<^verbatim>\<open>len(self.get_sweep_points().T)\<close>\<close>

fun len_T :: "pts \<Rightarrow> nat" where
  "len_T (Pts1 xs) = length xs"
| "len_T (Pts2 rs) = (case rs of [] \<Rightarrow> 0 | r # _ \<Rightarrow> length r)"

text \<open>\<^verbatim>\<open>len(new_data)\<close> for \<^verbatim>\<open>new_data = np.array(get_values()).T\<close>\<close>

fun len_new_data :: "hard_values \<Rightarrow> nat" where
  "len_new_data (Block1 v) = length v"
| "len_new_data (Block2 chans) = length (np_T chans)"

text \<open>
  The assignment of \<^verbatim>\<open>new_data\<close> to the value columns of the rows from \<open>start\<close> on: to the
  column \<open>S\<close> alone when the data is one-dimensional, to all the columns from \<open>S\<close> on
  otherwise.
\<close>

fun write_values :: "nat \<Rightarrow> nat \<Rightarrow> hard_values \<Rightarrow> dataset \<Rightarrow> dataset option" where
  "write_values start S (Block1 v) d =
     (if ncols d \<le> S then None
      else case h5_assign1 (length (rows d) - start) v of
             None \<Rightarrow> None
           | Some vs \<Rightarrow> Some (d\<lparr>rows := put_block start S (map (\<lambda>x. [x]) vs) (rows d)\<rparr>))"
| "write_values start S (Block2 chans) d =
     (case h5_assign2 (length (rows d) - start) (ncols d - S) (np_T chans) of
        None \<Rightarrow> None
      | Some blk \<Rightarrow> Some (d\<lparr>rows := put_block start S blk (rows d)\<rparr>))"

text \<open>\<^verbatim>\<open>self.dset[:, 0] = self.get_sweep_points().T\<close>\<close>

fun write_full_sweep :: "pts \<Rightarrow> dataset \<Rightarrow> dataset option" where
  "write_full_sweep (Pts1 xs) d =
     (if ncols d = 0 then None
      else case h5_assign1 (length (rows d)) xs of
             None \<Rightarrow> None
           | Some vs \<Rightarrow> Some (d\<lparr>rows := put_block 0 0 (map (\<lambda>x. [x]) vs) (rows d)\<rparr>))"
| "write_full_sweep (Pts2 rs) d =
     (if ncols d = 0 \<or> length (np_T rs) \<noteq> 1 then None
      else case h5_assign1 (length (rows d)) (hd (np_T rs)) of
             None \<Rightarrow> None
           | Some vs \<Rightarrow> Some (d\<lparr>rows := put_block 0 0 (map (\<lambda>x. [x]) vs) (rows d)\<rparr>))"

text \<open>
  \<^verbatim>\<open>self.dset[start_idx:, 0:S] = self.get_sweep_points()[start_idx:start_idx+len_new_data]\<close>
\<close>

fun write_window_sweep :: "nat \<Rightarrow> nat \<Rightarrow> nat \<Rightarrow> pts \<Rightarrow> dataset \<Rightarrow> dataset option" where
  "write_window_sweep start r S (Pts1 xs) d =
     (case h5_assign2 (length (rows d) - start) (min S (ncols d)) [take r (drop start xs)] of
        None \<Rightarrow> None
      | Some blk \<Rightarrow> Some (d\<lparr>rows := put_block start 0 blk (rows d)\<rparr>))"
| "write_window_sweep start r S (Pts2 rs) d =
     (case h5_assign2 (length (rows d) - start) (min S (ncols d)) (take r (drop start rs)) of
        None \<Rightarrow> None
      | Some blk \<Rightarrow> Some (d\<lparr>rows := put_block start 0 blk (rows d)\<rparr>))"

text \<open>
  \<^verbatim>\<open>update_plotmon_2D_hard\<close>, called after a block when there is a \<^verbatim>\<open>TwoD_array\<close>: it slices
  the table with \<^verbatim>\<open>i*self.xlen:(i+1)*self.xlen\<close> for the float \<^verbatim>\<open>i = self.iteration-1\<close>, which
  the store refuses, so the call always raises. The statement after it calls
  \<^verbatim>\<open>print_progress_static_2D_hard\<close>, a method the class does not have.
\<close>

definition update_plotmon_2D_hard :: "mc_state \<Rightarrow> unit outcome" where
  "update_plotmon_2D_hard s =
     (case xlen s of
        None \<Rightarrow> (Inl AttributeError, s)
      | Some xl \<Rightarrow> (Inl TypeError, s))"

text \<open>The last statements of \<^verbatim>\<open>measure_hard\<close>, from \<^verbatim>\<open>if hasattr(self, 'TwoD_array')\<close> on.\<close>

definition hard_plot_and_return :: "hard_values \<Rightarrow> mc_state \<Rightarrow> hard_values outcome" where
  "hard_plot_and_return new_data s =
     (case TwoD_array s of
        None \<Rightarrow> (Inr new_data, s)
      | Some a \<Rightarrow>
          (case update_plotmon_2D_hard s of
             (Inl e, s1) \<Rightarrow> (Inl e, s1)
           | (Inr u, s1) \<Rightarrow> (Inl AttributeError, s1)))"

text \<open>
  \<^verbatim>\<open>measure_hard\<close>: one block is read from the detector; the chunk number is the float
  \<^verbatim>\<open>datasetshape[0]/shape_new_data[0] + 1\<close>; \<^verbatim>\<open>start_idx\<close> is the float
  \<^verbatim>\<open>shape_new_data[0]*(self.iteration-1)\<close> truncated by \<^verbatim>\<open>int\<close>; the table is resized to the
  float \<^verbatim>\<open>shape_new_data[0]*self.iteration\<close>, which the store truncates; the block goes to
  the value columns from \<^verbatim>\<open>start_idx\<close> on. The sweep columns are written with the whole
  point set when its length is the block's, with the window of the block when the mode
  is the string object \<^verbatim>\<open>'2D'\<close> (\<^verbatim>\<open>self.mode is '2D'\<close>), and not at all otherwise.
\<close>

definition measure_hard :: "mc_state \<Rightarrow> hard_values outcome" where
  "measure_hard s =
     (let new_data = get_values (detector_function s) (events s);
          s1 = notify [GetValues] s;
          S = length (sweep_functions s1);
          r = len_new_data new_data;
          n = length (rows (dset s1))
      in if r = 0 then (Inl ZeroDivisionError, s1)
         else
           let it = fl (fl (of_nat n / of_nat r) + 1);
               s2 = s1\<lparr>iteration := it, iteration_is_float := True\<rparr>;
               start_idx = nat \<lfloor>fl (of_nat r * fl (it - 1))\<rfloor>;
               s3 = s2\<lparr>dset := resize (dset s2) (nat \<lfloor>fl (of_nat r * it)\<rfloor>)\<rparr>
           in case write_values start_idx S new_data (dset s3) of
                None \<Rightarrow> (Inl StoreError, s3)
              | Some d \<Rightarrow>
                  let s4 = s3\<lparr>dset := d\<rparr> in
                  (case get_sweep_points s4 of
                     Inl e \<Rightarrow> (Inl e, s4)
                   | Inr P \<Rightarrow>
                       if len_T P = r then
                         (case write_full_sweep P (dset s4) of
                            None \<Rightarrow> (Inl StoreError, s4)
                          | Some d' \<Rightarrow> hard_plot_and_return new_data (s4\<lparr>dset := d'\<rparr>))
                       else if mode s4 = ''2D'' \<and> mode_interned s4 then
                         (case write_window_sweep start_idx r S P (dset s4) of
                            None \<Rightarrow> (Inl StoreError, s4)
                          | Some d' \<Rightarrow> hard_plot_and_return new_data (s4\<lparr>dset := d'\<rparr>))
                       else hard_plot_and_return new_data s4))"

text \<open>
  The 2D hard loop of \<^verbatim>\<open>measure\<close>. Each round reads the point at index
  \<^verbatim>\<open>self.iteration*self.xlen\<close> once for every sweep function and sets the parameter of
  every sweep function but the first, then reads a block. The index is an int in the
  first round, where \<^verbatim>\<open>self.iteration\<close> is the int 0, and a float after the first block:
  numpy refuses a float index.
\<close>

definition point_at :: "pts \<Rightarrow> bool \<Rightarrow> rat \<Rightarrow> error + real list" where
  "point_at P is_float q =
     (let rs = iter_pts P in
      if \<not> is_float \<and> q = of_int \<lfloor>q\<rfloor> \<and> 0 \<le> q \<and> nat \<lfloor>q\<rfloor> < length rs
      then Inr (rs ! nat \<lfloor>q\<rfloor>)
      else Inl IndexError)"

text \<open>\<^verbatim>\<open>x[i]\<close> for a point \<open>x\<close> of the array \<open>P\<close>: a scalar of a one-dimensional array has no components.\<close>

definition component :: "pts \<Rightarrow> real list \<Rightarrow> nat \<Rightarrow> error + real" where
  "component P x i =
     (case P of
        Pts1 _ \<Rightarrow> Inl IndexError
      | Pts2 _ \<Rightarrow> (if i < length x then Inr (x ! i) else Inl IndexError))"

fun set_outer :: "nat list \<Rightarrow> mc_state \<Rightarrow> unit outcome" where
  "set_outer [] s = (Inr (), s)"
| "set_outer (i # is) s =
     (case get_sweep_points s of
        Inl e \<Rightarrow> (Inl e, s)
      | Inr P \<Rightarrow>
          (case xlen s of
             None \<Rightarrow> (Inl AttributeError, s)
           | Some xl \<Rightarrow>
               (case point_at P (iteration_is_float s) (iteration s * of_nat xl) of
                  Inl e \<Rightarrow> (Inl e, s)
                | Inr x \<Rightarrow>
                    if i \<noteq> 0 then
                      (case component P x i of
                         Inl e \<Rightarrow> (Inl e, s)
                       | Inr v \<Rightarrow> set_outer is (notify [SetParameter i v] s))
                    else set_outer is s)))"

fun hard_2D_loop :: "nat \<Rightarrow> mc_state \<Rightarrow> unit outcome" where
  "hard_2D_loop 0 s = (Inr (), s)"
| "hard_2D_loop (Suc j) s =
     (if complete s then hard_2D_loop j s
      else case set_outer [0..<length (sweep_functions s)] s of
             (Inl e, s1) \<Rightarrow> (Inl e, s1)
           | (Inr u, s1) \<Rightarrow>
               (case measure_hard s1 of
                  (Inl e, s2) \<Rightarrow> (Inl e, s2)
                | (Inr b, s2) \<Rightarrow> hard_2D_loop j s2))"

text \<open>\<^verbatim>\<open>self.get_sweep_points()[0: self.xlen, 0]\<close>\<close>

definition inner_points :: "pts \<Rightarrow> nat \<Rightarrow> error + pts" where
  "inner_points P xl =
     (case P of
        Pts1 _ \<Rightarrow> Inl IndexError
      | Pts2 rs \<Rightarrow> (if \<exists>r \<in> set (take 1 rs). length r = 0 then Inl IndexError
                   else Inr (Pts1 (map hd (take xl rs)))))"

definition measure_hard_part :: "mc_state \<Rightarrow> unit outcome" where
  "measure_hard_part s =
     (let s1 = s\<lparr>iteration := 0, iteration_is_float := False\<rparr> in
      if length (sweep_functions s1) = 1 then
        (case get_sweep_points s1 of
           Inl e \<Rightarrow> (Inl e, s1)
         | Inr P \<Rightarrow>
             (case measure_hard (notify [DetPrepare (Some P)] s1) of
                (Inl e, s2) \<Rightarrow> (Inl e, s2)
              | (Inr b, s2) \<Rightarrow> (Inr (), s2)))
      else if length (sweep_functions s1) = 2 then
        (case get_sweep_points s1 of
           Inl e \<Rightarrow> (Inl e, s1)
         | Inr P \<Rightarrow>
             (case xlen s1 of
                None \<Rightarrow> (Inl AttributeError, s1)
              | Some xl \<Rightarrow>
                  (case inner_points P xl of
                     Inl e \<Rightarrow> (Inl e, s1)
                   | Inr Px \<Rightarrow>
                       let s2 = (notify [DetPrepare (Some Px)] s1)\<lparr>complete := False\<rparr> in
                       (case ylen s2 of
                          None \<Rightarrow> (Inl AttributeError, s2)
                        | Some yl \<Rightarrow> hard_2D_loop yl s2))))
      else (Inl HardNotGeneralized, s1))"

text \<open>
  \<^verbatim>\<open>measure\<close> (here \<open>measure_mc\<close>): the control modes of the first sweep function and of the detector are
  compared, every sweep function is prepared, the soft or the hard acquisition runs, and
  the last statements tell every sweep function and the detector to finish.
\<close>

definition finish_all :: "mc_state \<Rightarrow> mc_state" where
  "finish_all s = notify (map Finish [0..<length (sweep_functions s)] @ [DetFinish]) s"

definition measure_mc :: "mc_state \<Rightarrow> unit outcome" where
  "measure_mc s =
     (case sweep_functions s of
        [] \<Rightarrow> (Inl IndexError, s)
      | f # fs \<Rightarrow>
          if sweep_control f \<noteq> detector_control (detector_function s) then (Inl NotSameType, s)
          else
            let s1 = notify (map Prepare [0..<length (sweep_functions s)]) s in
            (case (if sweep_control f = ''soft''
                   then measure_soft_static (notify [DetPrepare None] s1)
                   else if sweep_control f = ''hard'' then measure_hard_part s1
                   else (Inr (), s1)) of
               (Inl e, s2) \<Rightarrow> (Inl e, s2)
             | (Inr u, s2) \<Rightarrow> (Inr (), finish_all s2)))"

subsection \<open>Adaptive runs\<close>

text \<open>
  \<^verbatim>\<open>set_adaptive_function_parameters\<close> pops \<^verbatim>\<open>'x_scale'\<close> (default 1), \<^verbatim>\<open>'minimize'\<close>
  (default \<^verbatim>\<open>True\<close>) and \<^verbatim>\<open>'f_termination'\<close> (default \<^verbatim>\<open>None\<close>) from the dictionary
  and keeps the rest.
\<close>

definition set_adaptive_function_parameters :: "af_pars_dict \<Rightarrow> mc_state \<Rightarrow> mc_state" where
  "set_adaptive_function_parameters d s =
     s\<lparr>af_pars := d\<lparr>key_x_scale := None, key_minimize := None, key_f_termination := None\<rparr>,
       x_scale := (case key_x_scale d of None \<Rightarrow> ScaleScalar 1 | Some c \<Rightarrow> c),
       minimize_optimization := (case key_minimize d of None \<Rightarrow> True | Some b \<Rightarrow> b),
       f_termination := key_f_termination d\<rparr>"

text \<open>
  The loop \<^verbatim>\<open>x[i] = float(x[i])/float(self.x_scale[i])\<close> over a vector of scale factors:
  the first index without a factor raises, and so does the first factor 0.
\<close>

fun rescale_loop :: "real list \<Rightarrow> real list \<Rightarrow> error + real list" where
  "rescale_loop [] cs = Inr []"
| "rescale_loop (x # xs) [] = Inl IndexError"
| "rescale_loop (x # xs) (c # cs) =
     (if c = 0 then Inl ZeroDivisionError
      else case rescale_loop xs cs of Inl e \<Rightarrow> Inl e | Inr ys \<Rightarrow> Inr (x / c # ys))"

text \<open>
  The first statement of \<^verbatim>\<open>optimization_function\<close>. A scale that has \<^verbatim>\<open>__iter__\<close> is
  applied by the loop above. A scalar scale other than 1 enters the same loop body,
  where \<^verbatim>\<open>self.x_scale[i]\<close> subscripts the scalar: the first round raises a
  \<^verbatim>\<open>TypeError\<close>.
\<close>

definition rescale :: "x_scale_value \<Rightarrow> real list \<Rightarrow> error + real list" where
  "rescale sc x =
     (case sc of
        ScaleVector cs \<Rightarrow> rescale_loop x cs
      | ScaleScalar c \<Rightarrow> (if c \<noteq> 1 \<and> x \<noteq> [] then Inl TypeError else Inr x))"

text \<open>
  The truth value of an array of booleans in an \<^verbatim>\<open>if\<close>: that of its element when it has
  one, false when it has none, and a \<^verbatim>\<open>ValueError\<close> when it has several.
\<close>

fun array_truth :: "bool list \<Rightarrow> error + bool" where
  "array_truth [] = Inr False"
| "array_truth [b] = Inr b"
| "array_truth (b # c # bs) = Inl ValueError"

text \<open>
  \<^verbatim>\<open>(vals > self.f_termination) & (self.f_termination is not None)\<close>: both operands of
  \<^verbatim>\<open>&\<close> are evaluated, the comparison first. Against \<^verbatim>\<open>None\<close> the comparison of a float
  raises a \<^verbatim>\<open>TypeError\<close>; an array without elements compares nothing.
\<close>

definition greater_and_set :: "real list \<Rightarrow> real option \<Rightarrow> error + bool list" where
  "greater_and_set vals t =
     (case t of
        None \<Rightarrow> (if vals = [] then Inr [] else Inl TypeError)
      | Some tv \<Rightarrow> Inr (map (\<lambda>v. v > tv \<and> True) vals))"

text \<open>The last statement: of several values the first alone is returned.\<close>

definition first_if_several :: "real list \<Rightarrow> real list" where
  "first_if_several vals = (if length vals > 1 then [hd vals] else vals)"

definition optimization_function :: "real list \<Rightarrow> mc_state \<Rightarrow> (real list) outcome" where
  "optimization_function x s =
     (case rescale (x_scale s) x of
        Inl e \<Rightarrow> (Inl e, s)
      | Inr x' \<Rightarrow>
          if minimize_optimization s then
            (case measurement_function x' s of
               (Inl e, s1) \<Rightarrow> (Inl e, s1)
             | (Inr vals, s1) \<Rightarrow>
                 (case f_termination s1 of
                    None \<Rightarrow> (Inr (first_if_several vals), s1)
                  | Some t \<Rightarrow>
                      (case array_truth (map (\<lambda>v. v < t) vals) of
                         Inl e \<Rightarrow> (Inl e, s1)
                       | Inr b \<Rightarrow> if b then (Inl StopIteration, s1)
                                  else (Inr (first_if_several vals), s1))))
          else
            (case measurement_function x' s of
               (Inl e, s1) \<Rightarrow> (Inl e, s1)
             | (Inr vals, s1) \<Rightarrow>
                 (case greater_and_set vals (f_termination s1) of
                    Inl e \<Rightarrow> (Inl e, s1)
                  | Inr bs \<Rightarrow>
                      (case array_truth bs of
                         Inl e \<Rightarrow> (Inl e, s1)
                       | Inr b \<Rightarrow> if b then (Inl StopIteration, s1)
                                  else (Inr (first_if_several (map (\<lambda>v. - 1 * v) vals)), s1)))))"

text \<open>The optimizer at work: every call of the objective is a call of \<^verbatim>\<open>optimization_function\<close>.\<close>

primrec call_optimizer :: "optimizer \<Rightarrow> mc_state \<Rightarrow> unit outcome" where
  "call_optimizer OptReturn s = (Inr (), s)"
| "call_optimizer OptRaise s = (Inl OptimizerError, s)"
| "call_optimizer (OptCall x k) s =
     (case optimization_function x s of
        (Inl e, s1) \<Rightarrow> (Inl e, s1)
      | (Inr v, s1) \<Rightarrow> call_optimizer (k v) s1)"

text \<open>
  \<^verbatim>\<open>measure_soft_adaptive\<close>. The key \<^verbatim>\<open>'adaptive_function'\<close> is popped, everything is
  prepared, \<^verbatim>\<open>'Powell'\<close> is replaced by \<^verbatim>\<open>scipy.optimize.fmin_powell\<close> (a parameter of the
  model), and a value of type \<^verbatim>\<open>types.FunctionType\<close> is called with the objective and the
  remaining keywords, a \<^verbatim>\<open>StopIteration\<close> out of it being caught. The state holds the
  dictionary as \<^verbatim>\<open>set_adaptive_function_parameters\<close> left it, so the remaining keywords are
  \<open>key_others\<close>.
\<close>

definition measure_soft_adaptive :: "(kwargs \<Rightarrow> optimizer) \<Rightarrow> mc_state \<Rightarrow> unit outcome" where
  "measure_soft_adaptive fmin_powell s =
     (case key_adaptive_function (af_pars s) of
        None \<Rightarrow> (Inl KeyError, s)
      | Some af \<Rightarrow>
          let s1 = s\<lparr>af_pars := (af_pars s)\<lparr>key_adaptive_function := None\<rparr>\<rparr>;
              s2 = notify (map Prepare [0..<length (sweep_functions s1)] @ [DetPrepare None]) s1;
              adaptive_function =
                (case af of
                   PyStr name \<Rightarrow> (if name = ''Powell'' then PyFunction fmin_powell else af)
                 | _ \<Rightarrow> af)
          in (case adaptive_function of
                PyFunction f \<Rightarrow>
                  (case call_optimizer (f (key_others (af_pars s2))) s2 of
                     (Inl e, s3) \<Rightarrow>
                       (if e = StopIteration then (Inr (), finish_all s3) else (Inl e, s3))
                   | (Inr u, s3) \<Rightarrow> (Inr (), finish_all s3))
              | PyStr name \<Rightarrow> (Inl OptimizerNotRecognized, s2)
              | PyCallable f \<Rightarrow> (Inl OptimizerNotRecognized, s2)
              | PyNotCallable \<Rightarrow> (Inl OptimizerNotRecognized, s2)))"

subsection \<open>2D runs and the dispatcher\<close>

text \<open>\<^verbatim>\<open>np.size(self.get_sweep_points()[0])\<close>\<close>

fun first_size :: "pts \<Rightarrow> error + nat" where
  "first_size (Pts1 []) = Inl IndexError"
| "first_size (Pts1 (x # xs)) = Inr 1"
| "first_size (Pts2 []) = Inl IndexError"
| "first_size (Pts2 (r # rs)) = Inr (length r)"

text \<open>\<^verbatim>\<open>np.tile(a, n)\<close> and \<^verbatim>\<open>np.repeat(b, m)\<close> on one-dimensional arrays.\<close>

definition np_tile :: "'a list \<Rightarrow> nat \<Rightarrow> 'a list" where
  "np_tile a n = concat (replicate n a)"

definition np_repeat :: "'a list \<Rightarrow> nat \<Rightarrow> 'a list" where
  "np_repeat b m = concat (map (replicate m) b)"

text \<open>
  \<^verbatim>\<open>np.column_stack((x_tiled, y_rep))\<close> for the tiled inner points and the repeated outer
  points; the stack needs columns of one length. Inner points given as a one-dimensional
  array are tiled to a one-dimensional array, which becomes the first column. Inner points given as a column (rows of one
  component) are tiled along their rows; the stack then needs as many rows as \<open>y_rep\<close>
  has elements.
\<close>

fun tile_and_stack :: "pts \<Rightarrow> real list \<Rightarrow> nat \<Rightarrow> nat \<Rightarrow> error + pts" where
  "tile_and_stack (Pts1 xs) ys xl yl =
     (if length (np_tile xs yl) = length (np_repeat ys xl)
      then Inr (Pts2 (map (\<lambda>(x, y). [x, y]) (zip (np_tile xs yl) (np_repeat ys xl))))
      else Inl ValueError)"
| "tile_and_stack (Pts2 rs) ys xl yl =
     (if length rs = length (np_repeat ys xl)
      then Inr (Pts2 (map (\<lambda>(r, y). np_tile r yl @ [y]) (zip rs (np_repeat ys xl))))
      else Inl ValueError)"

definition len_pts :: "pts \<Rightarrow> nat" where
  "len_pts P = length (iter_pts P)"

text \<open>
  The reshaping branch of \<^verbatim>\<open>measure_2D\<close>, up to and including
  \<^verbatim>\<open>self.set_sweep_points(c)\<close>.
\<close>

definition reshape_sweep_points :: "pts \<Rightarrow> mc_state \<Rightarrow> unit outcome" where
  "reshape_sweep_points P s =
     (let s1 = s\<lparr>xlen := Some (len_pts P)\<rparr> in
      case sweep_points_2D s1 of
        None \<Rightarrow> (Inl AttributeError, s1)
      | Some ys \<Rightarrow>
          let s2 = s1\<lparr>ylen := Some (length ys)\<rparr> in
          (case tile_and_stack P ys (len_pts P) (length ys) of
             Inl e \<Rightarrow> (Inl e, s2)
           | Inr c \<Rightarrow> set_sweep_points c s2))"

text \<open>
  \<^verbatim>\<open>preallocate_2D_plot\<close>, for \<open>n\<close> outer and \<open>m\<close> inner points. With one value name the
  buffer is asked for as \<^verbatim>\<open>np.empty(n, m)\<close>, where \<open>m\<close> stands in the place of the data
  type: numpy raises a \<^verbatim>\<open>TypeError\<close>. With any other number \<open>V\<close> of value names the buffer
  has the shape \<^verbatim>\<open>[n, m, V]\<close>.
\<close>

definition preallocate_2D_plot :: "nat \<Rightarrow> nat \<Rightarrow> mc_state \<Rightarrow> unit outcome" where
  "preallocate_2D_plot n m s =
     (let V = length (value_names (detector_function s)) in
      if V = 1 then (Inl TypeError, s)
      else (Inr (), s\<lparr>TwoD_array := Some [n, m, V]\<rparr>))"

text \<open>
  \<^verbatim>\<open>measure_2D\<close>: sweep points of two components are measured as they are; sweep points
  of one component are combined with the outer points, the 2D buffer is allocated and the
  combined points are measured; with any other number of components nothing is done.
\<close>

definition measure_2D :: "mc_state \<Rightarrow> unit outcome" where
  "measure_2D s =
     (case get_sweep_points s of
        Inl e \<Rightarrow> (Inl e, s)
      | Inr P \<Rightarrow>
          (case first_size P of
             Inl e \<Rightarrow> (Inl e, s)
           | Inr sz \<Rightarrow>
               if sz = 2 then measure_mc s
               else if sz = 1 then
                 (case reshape_sweep_points P s of
                    (Inl e, s1) \<Rightarrow> (Inl e, s1)
                  | (Inr u, s1) \<Rightarrow>
                      (case sweep_points_2D s1 of
                         None \<Rightarrow> (Inl AttributeError, s1)
                       | Some ys \<Rightarrow>
                           (case preallocate_2D_plot (length ys) (len_pts P) s1 of
                              (Inl e, s2) \<Rightarrow> (Inl e, s2)
                            | (Inr u, s2) \<Rightarrow> measure_mc s2)))
               else (Inr (), s)))"

text \<open>
  \<^verbatim>\<open>run\<close>: the mode is stored, the table is created, the mode selects the acquisition by
  its characters, the table is returned. Whether the string passed as the mode is the
  interned constant is told by \<open>mode_interned\<close> of the engine that \<open>run\<close> is given.
\<close>

definition run :: "(kwargs \<Rightarrow> optimizer) \<Rightarrow> string \<Rightarrow> mc_state \<Rightarrow> (real list list) outcome" where
  "run fmin_powell md s =
     (let s1 = create_experimentaldata_dataset (s\<lparr>mode := md\<rparr>) in
      case (if mode s1 = ''1D'' then measure_mc s1
            else if mode s1 = ''2D'' then measure_2D s1
            else if mode s1 = ''adaptive'' then measure_soft_adaptive fmin_powell s1
            else (Inl ModeNotRecognized, s1)) of
        (Inl e, s2) \<Rightarrow> (Inl e, s2)
      | (Inr u, s2) \<Rightarrow> (Inr (rows (dset s2)), s2))"

subsection \<open>Notions used in the statements\<close>

text \<open>The finish notifications in the trace of an engine.\<close>

fun is_finish :: "event \<Rightarrow> bool" where
  "is_finish (Finish i) = True"
| "is_finish DetFinish = True"
| "is_finish (Prepare i) = False"
| "is_finish (SetParameter i v) = False"
| "is_finish (DetPrepare P) = False"
| "is_finish AcquireDataPoint = False"
| "is_finish GetValues = False"

definition finishes :: "mc_state \<Rightarrow> event list" where
  "finishes s = filter is_finish (events s)"

text \<open>
  What a method leaves alone: the configuration of the run, and the finish
  notifications sent so far.
\<close>

definition same_config :: "mc_state \<Rightarrow> mc_state \<Rightarrow> bool" where
  "same_config s s' \<longleftrightarrow>
     sweep_functions s' = sweep_functions s \<and> detector_function s' = detector_function s
     \<and> mode s' = mode s \<and> mode_interned s' = mode_interned s
     \<and> TwoD_array s' = TwoD_array s \<and> mc_sweep_points s' = mc_sweep_points s
     \<and> sweep_points_2D s' = sweep_points_2D s \<and> xlen s' = xlen s \<and> ylen s' = ylen s
     \<and> af_pars s' = af_pars s \<and> x_scale s' = x_scale s
     \<and> minimize_optimization s' = minimize_optimization s
     \<and> f_termination s' = f_termination s \<and> finishes s' = finishes s"

text \<open>
  \<open>k\<close> calls of \<^verbatim>\<open>measure_hard\<close> in a row, as the loop over the outer axis makes them;
  the blocks the calls return are collected.
\<close>

fun measure_hard_times :: "nat \<Rightarrow> mc_state \<Rightarrow> (hard_values list) outcome" where
  "measure_hard_times 0 s = (Inr [], s)"
| "measure_hard_times (Suc k) s =
     (case measure_hard s of
        (Inl e, s1) \<Rightarrow> (Inl e, s1)
      | (Inr b, s1) \<Rightarrow>
          (case measure_hard_times k s1 of
             (Inl e, s2) \<Rightarrow> (Inl e, s2)
           | (Inr bs, s2) \<Rightarrow> (Inr (b # bs), s2)))"

text \<open>
  A block of \<open>r\<close> rows for a detector of \<open>V\<close> channels: \<open>V\<close> channels of \<open>r\<close> values each, or
  the \<open>r\<close> values of the one channel. Its rows are the value cells it brings to the table.
\<close>

fun block_ok :: "nat \<Rightarrow> nat \<Rightarrow> hard_values \<Rightarrow> bool" where
  "block_ok r V (Block1 v) = (length v = r \<and> V = 1)"
| "block_ok r V (Block2 chans) =
     (length chans = V \<and> 0 < V \<and> (\<forall>ch \<in> set chans. length ch = r))"

fun block_rows :: "hard_values \<Rightarrow> real list list" where
  "block_rows (Block1 v) = map (\<lambda>x. [x]) v"
| "block_rows (Block2 chans) = np_T chans"

text \<open>A table whose rows all have its number of columns.\<close>

definition table_ok :: "dataset \<Rightarrow> bool" where
  "table_ok d \<longleftrightarrow> (\<forall>row \<in> set (rows d). length row = ncols d)"

text \<open>
  The engine in the middle of \<^verbatim>\<open>measure_hard\<close>, when a well-shaped block has been
  written to fresh rows and the sweep columns are still to be written.
\<close>

definition after_values :: "mc_state \<Rightarrow> mc_state" where
  "after_values s =
     (let b = get_values (detector_function s) (events s);
          S = length (sweep_functions s);
          n = length (rows (dset s))
      in s\<lparr>events := events s @ [GetValues],
           iteration := of_nat n / of_nat (len_new_data b) + 1,
           iteration_is_float := True,
           dset := (dset s)\<lparr>rows := rows (dset s)
                      @ map (\<lambda>vs. replicate S 0 @ vs) (block_rows b)\<rparr>\<rparr>)"

text \<open>
  The source of \<^verbatim>\<open>self.dset[:, 0] = self.get_sweep_points().T\<close>, and the tables whose first
  column that assignment has written (for blocks of \<open>r\<close> rows).
\<close>

fun first_column :: "pts \<Rightarrow> real list" where
  "first_column (Pts1 xs) = xs"
| "first_column (Pts2 rs) = hd (np_T rs)"

definition sweep_column_written :: "nat \<Rightarrow> mc_state \<Rightarrow> bool" where
  "sweep_column_written r s \<longleftrightarrow>
     (\<forall>P. get_sweep_points s = Inr P \<and> len_T P = r \<and> rows (dset s) \<noteq> []
        \<longrightarrow> (\<exists>vs. h5_assign1 (length (rows (dset s))) (first_column P) = Some vs
               \<and> (\<forall>i < length (rows (dset s)). take 1 (rows (dset s) ! i) = [vs ! i])))"

text \<open>
  \<^verbatim>\<open>self.get_sweep_points()[start:start+r]\<close> as the source of an assignment to a selection
  of rows and columns: a one-dimensional array is one row of it.
\<close>

fun window :: "nat \<Rightarrow> nat \<Rightarrow> pts \<Rightarrow> real list list" where
  "window start r (Pts1 xs) = [take r (drop start xs)]"
| "window start r (Pts2 rs) = take r (drop start rs)"


subsection \<open>Example configurations\<close>

text \<open>
  One soft sweep function over the points 0, 1, 2 and a soft detector of one channel
  that answers twice the value set last.
\<close>

definition example_detector :: detector_function where
  "example_detector =
     \<lparr>detector_control = ''soft'', value_names = [''v''],
      acquire_data_point = (\<lambda>ev. case last ev of SetParameter i v \<Rightarrow> [2 * v] | _ \<Rightarrow> [0]),
      get_values = (\<lambda>ev. Block1 [])\<rparr>"

definition example_engine :: mc_state where
  "example_engine =
     \<lparr>mode = [], mode_interned = True,
      sweep_functions = [\<lparr>sweep_control = ''soft'', sweep_points = Some (Pts1 [0, 1, 2])\<rparr>],
      detector_function = example_detector,
      mc_sweep_points = Some (Pts1 [0, 1, 2]), sweep_points_2D = None, xlen = None, ylen = None,
      iteration = 0, iteration_is_float = False, complete = False, TwoD_array = None,
      dset = \<lparr>rows = [], ncols = 0\<rparr>,
      af_pars = \<lparr>key_adaptive_function = None, key_x_scale = None, key_minimize = None,
                 key_f_termination = None, key_others = []\<rparr>,
      x_scale = ScaleScalar 1, minimize_optimization = True, f_termination = None, events = []\<rparr>"

text \<open>
  An adaptive configuration: a detector whose readings are 5, 3 and then 0.05, an
  optimizer (a plain function) that asks for the objective at 0, 1, 2 and 3, and the
  termination threshold 0.1.
\<close>

definition counting_detector :: detector_function where
  "counting_detector =
     \<lparr>detector_control = ''soft'', value_names = [''v''],
      acquire_data_point =
        (\<lambda>ev. case length (filter (\<lambda>e. case e of AcquireDataPoint \<Rightarrow> True | _ \<Rightarrow> False) ev) of
                 0 \<Rightarrow> [5] | Suc 0 \<Rightarrow> [3] | Suc (Suc n) \<Rightarrow> [1 / 20]),
      get_values = (\<lambda>ev. Block1 [])\<rparr>"

definition example_optimizer :: "kwargs \<Rightarrow> optimizer" where
  "example_optimizer kw =
     OptCall [0] (\<lambda>a. OptCall [1] (\<lambda>b. OptCall [2] (\<lambda>c. OptCall [3] (\<lambda>d. OptReturn))))"

definition adaptive_pars :: af_pars_dict where
  "adaptive_pars =
     \<lparr>key_adaptive_function = Some (PyFunction example_optimizer), key_x_scale = None,
      key_minimize = None, key_f_termination = Some (1 / 10), key_others = []\<rparr>"

definition adaptive_engine :: mc_state where
  "adaptive_engine =
     set_adaptive_function_parameters adaptive_pars
       (example_engine\<lparr>detector_function := counting_detector\<rparr>)"

text \<open>The same run told to maximize, without a threshold.\<close>

definition maximize_engine :: mc_state where
  "maximize_engine =
     set_adaptive_function_parameters
       (adaptive_pars\<lparr>key_minimize := Some False, key_f_termination := None\<rparr>)
       (example_engine\<lparr>detector_function := counting_detector\<rparr>)"

text \<open>The same run with the scalar scale factor 2.\<close>

definition scaled_engine :: mc_state where
  "scaled_engine =
     set_adaptive_function_parameters (adaptive_pars\<lparr>key_x_scale := Some (ScaleScalar 2)\<rparr>)
       (example_engine\<lparr>detector_function := counting_detector\<rparr>)"

text \<open>The same run with the optimizer given as a callable that is not a plain function.\<close>

definition callable_engine :: mc_state where
  "callable_engine =
     set_adaptive_function_parameters
       (adaptive_pars\<lparr>key_adaptive_function := Some (PyCallable example_optimizer)\<rparr>)
       (example_engine\<lparr>detector_function := counting_detector\<rparr>)"

text \<open>
  The same run with a detector of two channels, whose readings are always 0.05 and 7, and
  that engine with its table created.
\<close>

definition two_channel_detector :: detector_function where
  "two_channel_detector =
     \<lparr>detector_control = ''soft'', value_names = [''a'', ''b''],
      acquire_data_point = (\<lambda>ev. [1 / 20, 7]),
      get_values = (\<lambda>ev. Block1 [])\<rparr>"

definition two_channel_engine :: mc_state where
  "two_channel_engine =
     set_adaptive_function_parameters adaptive_pars
       (example_engine\<lparr>detector_function := two_channel_detector\<rparr>)"

definition two_channel_ready :: mc_state where
  "two_channel_ready = create_experimentaldata_dataset two_channel_engine"

text \<open>The adaptive engine in the middle of its run: the table is created, two readings are taken.\<close>

definition adaptive_midrun :: mc_state where
  "adaptive_midrun =
     (create_experimentaldata_dataset adaptive_engine)
       \<lparr>events := [AcquireDataPoint, AcquireDataPoint]\<rparr>"

text \<open>The maximizing engine with its table created.\<close>

definition maximize_ready :: mc_state where
  "maximize_ready = create_experimentaldata_dataset maximize_engine"

text \<open>A 2D configuration: the inner points 0, 1 and the outer points 10, 20.\<close>

definition twoD_engine :: mc_state where
  "twoD_engine =
     example_engine
       \<lparr>sweep_functions := [\<lparr>sweep_control = ''soft'', sweep_points = Some (Pts1 [0, 1])\<rparr>,
                            \<lparr>sweep_control = ''soft'', sweep_points = None\<rparr>],
        mc_sweep_points := Some (Pts1 [0, 1]),
        sweep_points_2D := Some [10, 20]\<rparr>"

text \<open>
  A hard configuration in mode 1D: one hard sweep function over six points and a hard
  detector of one channel whose blocks of two values are 7, 8, then 9, 10, then 11, 12.
\<close>

definition block_detector :: detector_function where
  "block_detector =
     \<lparr>detector_control = ''hard'', value_names = [''v''],
      acquire_data_point = (\<lambda>ev. []),
      get_values =
        (\<lambda>ev. case length (filter (\<lambda>e. case e of GetValues \<Rightarrow> True | _ \<Rightarrow> False) ev) of
                 0 \<Rightarrow> Block1 [7, 8] | Suc 0 \<Rightarrow> Block1 [9, 10] | Suc (Suc n) \<Rightarrow> Block1 [11, 12])\<rparr>"

definition hard_engine :: mc_state where
  "hard_engine =
     create_experimentaldata_dataset
       (example_engine
          \<lparr>mode := ''1D'',
           sweep_functions :=
             [\<lparr>sweep_control = ''hard'', sweep_points = Some (Pts1 [1, 2, 3, 4, 5, 6])\<rparr>],
           detector_function := block_detector,
           mc_sweep_points := Some (Pts1 [1, 2, 3, 4, 5, 6])\<rparr>)"

text \<open>Three hard sweep functions with the same detector.\<close>

definition three_hard_engine :: mc_state where
  "three_hard_engine =
     hard_engine
       \<lparr>sweep_functions :=
          [\<lparr>sweep_control = ''hard'', sweep_points = Some (Pts1 [1, 2, 3, 4, 5, 6])\<rparr>,
           \<lparr>sweep_control = ''hard'', sweep_points = None\<rparr>,
           \<lparr>sweep_control = ''hard'', sweep_points = None\<rparr>]\<rparr>"
text \<open>The hard configuration with as many sweep points as a block has rows.\<close>

definition full_engine :: mc_state where
  "full_engine =
     hard_engine
       \<lparr>sweep_functions := [\<lparr>sweep_control = ''hard'', sweep_points = Some (Pts1 [1, 2])\<rparr>],
        mc_sweep_points := Some (Pts1 [1, 2])\<rparr>"

text \<open>
  A hard configuration in mode 2D: two hard sweep functions, the combined points of the
  inner points 1, 2, 3 and the outer points 10, 20, and a detector whose block is 7, 8, 9.
\<close>

definition wide_detector :: detector_function where
  "wide_detector =
     \<lparr>detector_control = ''hard'', value_names = [''v''],
      acquire_data_point = (\<lambda>ev. []),
      get_values = (\<lambda>ev. Block1 [7, 8, 9])\<rparr>"

definition window_engine :: mc_state where
  "window_engine =
     create_experimentaldata_dataset
       (example_engine
          \<lparr>mode := ''2D'',
           sweep_functions :=
             [\<lparr>sweep_control = ''hard'',
               sweep_points = Some (Pts2 [[1, 10], [2, 10], [3, 10], [1, 20], [2, 20], [3, 20]])\<rparr>,
              \<lparr>sweep_control = ''hard'', sweep_points = None\<rparr>],
           detector_function := wide_detector,
           mc_sweep_points := Some (Pts2 [[1, 10], [2, 10], [3, 10], [1, 20], [2, 20], [3, 20]]),
           xlen := Some 3, ylen := Some 2\<rparr>)"

text \<open>
  A hard configuration in mode 1D whose table has four rows when a block of three rows
  comes in.
\<close>

definition unaligned_engine :: mc_state where
  "unaligned_engine =
     (create_experimentaldata_dataset
        (example_engine
           \<lparr>mode := ''1D'',
            sweep_functions :=
              [\<lparr>sweep_control = ''hard'', sweep_points = Some (Pts1 [1, 2, 3, 4, 5, 6])\<rparr>],
            detector_function := wide_detector,
            mc_sweep_points := Some (Pts1 [1, 2, 3, 4, 5, 6])\<rparr>))
       \<lparr>dset := \<lparr>rows = [[0, 1], [0, 2], [0, 3], [0, 4]], ncols = 2\<rparr>\<rparr>"


section \<open>Properties\<close>

subsection \<open>The soft loop and the shape of the table\<close>

lemma measurement_function_Inr:
  assumes "measurement_function x s = (Inr vals, s')"
  shows "length x = length (sweep_functions s)"
    and "\<exists>ev row. vals = acquire_data_point (detector_function s) ev
           \<and> rows (dset s') = rows (dset s) @ [row]
           \<and> h5_assign1 (ncols (dset s)) (x @ vals) = Some row"
    and "ncols (dset s') = ncols (dset s)"
    and "sweep_functions s' = sweep_functions s"
    and "detector_function s' = detector_function s"
  using assms
  by (auto simp: measurement_function_def Let_def notify_def resize_def update_plotmon_2D_def
           split: if_splits option.splits)

lemma soft_loop_Inr:
  assumes "soft_loop ps s = (Inr u, s')"
  shows "sweep_functions s' = sweep_functions s \<and> detector_function s' = detector_function s
       \<and> ncols (dset s') = ncols (dset s)
       \<and> (\<forall>p \<in> set ps. length p = length (sweep_functions s))
       \<and> (\<exists>new. length new = length ps \<and> rows (dset s') = rows (dset s) @ new
            \<and> (\<forall>i < length ps. \<exists>ev. h5_assign1 (ncols (dset s))
                    (ps ! i @ acquire_data_point (detector_function s) ev) = Some (new ! i)))"
  using assms
proof (induction ps arbitrary: s)
  case Nil
  then show ?case by simp
next
  case (Cons p ps)
  from Cons.prems obtain vals s1 where
    m: "measurement_function p s = (Inr vals, s1)" and l: "soft_loop ps s1 = (Inr u, s')"
    by (auto split: prod.splits sum.splits)
  note f = measurement_function_Inr[OF m]
  from f(2) obtain ev row where
    row: "rows (dset s1) = rows (dset s) @ [row]"
         "h5_assign1 (ncols (dset s)) (p @ acquire_data_point (detector_function s) ev) = Some row"
    by auto
  from Cons.IH[OF l] f(3,4,5) obtain new where
    new: "length new = length ps" "rows (dset s') = rows (dset s1) @ new"
      "\<forall>i < length ps. \<exists>ev. h5_assign1 (ncols (dset s))
                    (ps ! i @ acquire_data_point (detector_function s) ev) = Some (new ! i)"
    and rest: "sweep_functions s' = sweep_functions s" "detector_function s' = detector_function s"
      "ncols (dset s') = ncols (dset s)" "\<forall>p \<in> set ps. length p = length (sweep_functions s)"
    by auto
  have "\<forall>i < length (p # ps). \<exists>ev. h5_assign1 (ncols (dset s))
            ((p # ps) ! i @ acquire_data_point (detector_function s) ev) = Some ((row # new) ! i)"
    using row(2) new(3) by (auto simp: nth_Cons split: nat.splits)
  moreover have "rows (dset s') = rows (dset s) @ (row # new)" using row(1) new(2) by simp
  moreover have "length (row # new) = length (p # ps)" using new(1) by simp
  ultimately show ?case using rest f(1) by (intro conjI exI[of _ "row # new"]) auto
qed

text \<open>
  C1. A 1D soft run over a point set of \<open>N\<close> points, with \<open>S\<close> sweep functions and a
  detector of \<open>V\<close> value channels (every reading has \<open>V\<close> values): the table is created
  with no rows and \<open>S + V\<close> columns; every measurement that returns has appended exactly
  one row to the table; and when the run completes the returned table has \<open>N\<close> rows of
  \<open>S + V\<close> cells each, row \<open>i\<close> being sweep point \<open>i\<close> followed by values read from the
  detector.
\<close>

theorem soft_run_table_shape:
  assumes run: "run fm ''1D'' s = (Inr tbl, s')"
    and soft: "sweep_control (hd (sweep_functions s)) = ''soft''"
    and pts: "mc_sweep_points s = Some P"
    and det: "\<forall>ev. length (acquire_data_point (detector_function s) ev)
                  = length (value_names (detector_function s))"
  shows "dset (create_experimentaldata_dataset s)
           = \<lparr>rows = [], ncols = length (sweep_functions s) + length (value_names (detector_function s))\<rparr>
       \<and> (\<forall>x t vals t'. measurement_function x t = (Inr vals, t')
             \<longrightarrow> (\<exists>row. rows (dset t') = rows (dset t) @ [row]))
       \<and> length tbl = len_pts P
       \<and> (\<forall>row \<in> set tbl. length row
             = length (sweep_functions s) + length (value_names (detector_function s)))
       \<and> (\<forall>i < len_pts P. \<exists>ev. tbl ! i
             = iter_pts P ! i @ acquire_data_point (detector_function s) ev)"
proof -
  let ?S = "length (sweep_functions s)"
  let ?V = "length (value_names (detector_function s))"
  let ?s1 = "create_experimentaldata_dataset (s\<lparr>mode := ''1D''\<rparr>)"
  have s1: "sweep_functions ?s1 = sweep_functions s" "detector_function ?s1 = detector_function s"
    "mc_sweep_points ?s1 = Some P" "rows (dset ?s1) = []" "ncols (dset ?s1) = ?S + ?V"
    using pts by (simp_all add: create_experimentaldata_dataset_def)
  have step: "\<forall>x t vals t'. measurement_function x t = (Inr vals, t')
             \<longrightarrow> (\<exists>row. rows (dset t') = rows (dset t) @ [row])"
    using measurement_function_Inr(2) by blast
  from run obtain u where meas: "measure_mc ?s1 = (Inr u, s')" and tbl: "tbl = rows (dset s')"
    by (auto simp: run_def Let_def create_experimentaldata_dataset_def
             split: prod.splits sum.splits)
  from meas obtain s2 where
    loop: "soft_loop (iter_pts P) (notify [DetPrepare None]
             (notify (map Prepare [0..<?S]) ?s1)) = (Inr (), s2)"
    and s': "s' = finish_all s2"
    using soft s1(1,2,3)
    by (cases "sweep_functions s")
       (auto simp: measure_mc_def Let_def measure_soft_static_def notify_def
             split: if_splits prod.splits sum.splits)
  let ?s0 = "notify [DetPrepare None] (notify (map Prepare [0..<?S]) ?s1)"
  have s0: "sweep_functions ?s0 = sweep_functions s" "detector_function ?s0 = detector_function s"
    "rows (dset ?s0) = []" "ncols (dset ?s0) = ?S + ?V"
    using s1 by (simp_all add: notify_def)
  from soft_loop_Inr[OF loop] s0 obtain new where
    new: "length new = length (iter_pts P)" "rows (dset s2) = new"
      "\<forall>i < length (iter_pts P). \<exists>ev. h5_assign1 (?S + ?V)
            (iter_pts P ! i @ acquire_data_point (detector_function s) ev) = Some (new ! i)"
    and len: "\<forall>p \<in> set (iter_pts P). length p = ?S"
    by auto
  have tbl': "tbl = new" using tbl s' new(2) by (simp add: finish_all_def notify_def)
  have rowi: "\<exists>ev. new ! i = iter_pts P ! i @ acquire_data_point (detector_function s) ev"
    if "i < length (iter_pts P)" for i
  proof -
    from new(3) that obtain ev where
      "h5_assign1 (?S + ?V) (iter_pts P ! i @ acquire_data_point (detector_function s) ev)
         = Some (new ! i)" by blast
    moreover have "length (iter_pts P ! i @ acquire_data_point (detector_function s) ev) = ?S + ?V"
      using len det that by simp
    ultimately have "new ! i = iter_pts P ! i @ acquire_data_point (detector_function s) ev"
      by (simp add: h5_assign1_def)
    then show ?thesis by blast
  qed
  have rowlen: "length row = ?S + ?V" if "row \<in> set new" for row
  proof -
    from that obtain i where i: "i < length new" "row = new ! i" by (auto simp: in_set_conv_nth)
    with rowi[of i] new(1) obtain ev where
      "row = iter_pts P ! i @ acquire_data_point (detector_function s) ev" by auto
    then show ?thesis using len det i new(1) by simp
  qed
  show ?thesis
    using step new(1) rowi rowlen
    by (simp add: tbl' len_pts_def create_experimentaldata_dataset_def)
qed

theorem soft_run_table_shape_witness:
  "fst (run (\<lambda>k. OptReturn) ''1D'' example_engine) = Inr [[0, 0], [1, 2], [2, 4]]
   \<and> sweep_control (hd (sweep_functions example_engine)) = ''soft''
   \<and> mc_sweep_points example_engine = Some (Pts1 [0, 1, 2])
   \<and> length [[0, 0], [1, 2], [2, 4 :: real]] = len_pts (Pts1 [0, 1, 2])
   \<and> length (sweep_functions example_engine)
       + length (value_names (detector_function example_engine)) = 2"
proof -
  have r: "run (\<lambda>k. OptReturn) ''1D'' example_engine
     = (Inr [[0, 0], [1, 2], [2, 4]], snd (run (\<lambda>k. OptReturn) ''1D'' example_engine))"
    by (simp add: run_def example_engine_def example_detector_def
          create_experimentaldata_dataset_def measure_mc_def measure_soft_static_def
          measurement_function_def notify_def resize_def h5_assign1_def finish_all_def Let_def)
  have d: "\<forall>ev. length (acquire_data_point (detector_function example_engine) ev)
                  = length (value_names (detector_function example_engine))"
    by (simp add: example_engine_def example_detector_def split: event.splits)
  have p: "mc_sweep_points example_engine = Some (Pts1 [0, 1, 2])"
    and c: "sweep_control (hd (sweep_functions example_engine)) = ''soft''"
    by (simp_all add: example_engine_def)
  have f: "fst (run (\<lambda>k. OptReturn) ''1D'' example_engine) = Inr [[0, 0], [1, 2], [2, 4]]"
    using r by (metis fst_conv)
  have n: "length (sweep_functions example_engine)
       + length (value_names (detector_function example_engine)) = 2"
    by (simp add: example_engine_def example_detector_def)
  have l: "length [[0, 0], [1, 2], [2, 4 :: real]] = len_pts (Pts1 [0, 1, 2])"
    using soft_run_table_shape[OF r c p d] by blast
  show ?thesis
    using f c p l n by blast
qed

subsection \<open>Sweep points set and read back\<close>

text \<open>
  C10. With at least one sweep function attached, \<^verbatim>\<open>set_sweep_points(p)\<close> returns, stores
  the array of \<open>p\<close> on the engine and on the first sweep function, and
  \<^verbatim>\<open>get_sweep_points()\<close> then returns the array of \<open>p\<close>, read from the first sweep
  function.
\<close>

theorem set_get_sweep_points:
  assumes "sweep_functions s \<noteq> []"
  shows "fst (set_sweep_points p s) = Inr ()
       \<and> mc_sweep_points (snd (set_sweep_points p s)) = Some (np_array p)
       \<and> sweep_points (hd (sweep_functions (snd (set_sweep_points p s)))) = Some (np_array p)
       \<and> get_sweep_points (snd (set_sweep_points p s)) = Inr (np_array p)"
  using assms
  by (cases "sweep_functions s") (simp_all add: set_sweep_points_def get_sweep_points_def)

theorem set_get_sweep_points_witness:
  "sweep_functions example_engine \<noteq> []
   \<and> fst (set_sweep_points (Pts1 [3, 4]) example_engine) = Inr ()
   \<and> get_sweep_points (snd (set_sweep_points (Pts1 [3, 4]) example_engine)) = Inr (Pts1 [3, 4])"
proof -
  have h: "sweep_functions example_engine \<noteq> []" by (simp add: example_engine_def)
  show ?thesis
    using h set_get_sweep_points[OF h, of "Pts1 [3, 4]"] by (simp add: np_array_def)
qed

subsection \<open>What the soft measurement leaves alone\<close>

lemma finishes_notify:
  "finishes (notify es s) = finishes s @ filter is_finish es"
  by (simp add: finishes_def notify_def)

lemma same_config_refl: "same_config s s"
  by (simp add: same_config_def)

lemma same_config_trans: "same_config s t \<Longrightarrow> same_config t u \<Longrightarrow> same_config s u"
  by (simp add: same_config_def)

lemma measurement_function_config:
  "measurement_function x s = (r, s') \<Longrightarrow> same_config s s'"
  by (auto simp: measurement_function_def Let_def same_config_def finishes_def notify_def
                 filter_map comp_def update_plotmon_2D_def
           split: if_splits option.splits)

lemma optimization_function_config:
  "optimization_function x s = (r, s') \<Longrightarrow> same_config s s'"
  by (auto simp: optimization_function_def same_config_refl
           dest: measurement_function_config
           split: sum.splits if_splits prod.splits option.splits)

lemma call_optimizer_config:
  "call_optimizer opt s = (r, s') \<Longrightarrow> same_config s s'"
proof (induction opt arbitrary: s)
  case OptReturn then show ?case by (simp add: same_config_refl)
next
  case OptRaise then show ?case by (simp add: same_config_refl)
next
  case (OptCall x k)
  show ?case
  proof (cases "optimization_function x s")
    case (Pair a s1)
    note c = optimization_function_config[OF Pair]
    show ?thesis
    proof (cases a)
      case (Inl e)
      with Pair OptCall.prems c show ?thesis by simp
    next
      case (Inr v)
      with Pair OptCall.prems have "call_optimizer (k v) s1 = (r, s')" by simp
      from OptCall.IH[OF _ this] c show ?thesis by (blast intro: same_config_trans)
    qed
  qed
qed


subsection \<open>The objective of an adaptive run\<close>

lemmas run_eval =
  run_def create_experimentaldata_dataset_def measure_mc_def measure_soft_static_def
  measurement_function_def notify_def resize_def h5_assign1_def finish_all_def Let_def
  update_plotmon_2D_def measure_soft_adaptive_def optimization_function_def rescale_def
  set_adaptive_function_parameters_def first_if_several_def greater_and_set_def

lemmas adaptive_examples =
  adaptive_engine_def maximize_engine_def maximize_ready_def adaptive_midrun_def scaled_engine_def callable_engine_def
  adaptive_pars_def example_engine_def counting_detector_def example_optimizer_def

text \<open>
  C4 (the code departs from it for a detector of several values). With a termination
  threshold \<open>t\<close>, the objective compares what the measurement returns with \<open>t\<close>. For a
  measurement of one value \<open>v\<close>: a minimizing objective raises the stop signal exactly when
  \<open>v < t\<close> and returns \<open>v\<close> otherwise, so an optimizer is stopped at its first call with
  \<open>v < t\<close> and goes on after every other call; a maximizing objective raises it exactly
  when \<open>v > t\<close>, tested on the value as measured, and returns \<open>- v\<close> otherwise. For a
  measurement of two or more values the comparison raises a \<^verbatim>\<open>ValueError\<close> at every call,
  whatever the values, and the optimizer is left by that error. A stop signal that comes
  out of the optimizer is caught, and it alone: the run then sends the finish
  notifications and returns normally, and every other exception goes through the run.
\<close>

theorem adaptive_termination:
  assumes "f_termination s = Some t"
    and "rescale (x_scale s) x = Inr x'"
    and "measurement_function x' s = (Inr vals, s1)"
  shows "(\<forall>v. vals = [v] \<and> minimize_optimization s \<longrightarrow>
            optimization_function x s
              = (if v < t then (Inl StopIteration, s1) else (Inr [v], s1))
          \<and> call_optimizer (OptCall x k) s
              = (if v < t then (Inl StopIteration, s1) else call_optimizer (k [v]) s1))
       \<and> (\<forall>v. vals = [v] \<and> \<not> minimize_optimization s \<longrightarrow>
            optimization_function x s
              = (if v > t then (Inl StopIteration, s1) else (Inr [- v], s1))
          \<and> call_optimizer (OptCall x k) s
              = (if v > t then (Inl StopIteration, s1) else call_optimizer (k [- v]) s1))
       \<and> (2 \<le> length vals \<longrightarrow>
            optimization_function x s = (Inl ValueError, s1)
          \<and> call_optimizer (OptCall x k) s = (Inl ValueError, s1))
       \<and> (\<forall>fm s0 f e s3.
            key_adaptive_function (af_pars s0) = Some (PyFunction f)
            \<and> call_optimizer (f (key_others (af_pars s0)))
                (notify (map Prepare [0..<length (sweep_functions s0)] @ [DetPrepare None])
                   (s0\<lparr>af_pars := (af_pars s0)\<lparr>key_adaptive_function := None\<rparr>\<rparr>))
                = (Inl e, s3)
            \<longrightarrow> measure_soft_adaptive fm s0
                  = (if e = StopIteration then (Inr (), finish_all s3) else (Inl e, s3)))"
proof -
  have t1: "f_termination s1 = Some t"
    using measurement_function_config[OF assms(3)] assms(1) by (simp add: same_config_def)
  have mini: "optimization_function x s
              = (if v < t then (Inl StopIteration, s1) else (Inr [v], s1))"
    if "vals = [v] \<and> minimize_optimization s" for v
    using that assms(2,3) t1 by (simp add: optimization_function_def first_if_several_def)
  have maxi: "optimization_function x s
              = (if v > t then (Inl StopIteration, s1) else (Inr [- v], s1))"
    if "vals = [v] \<and> \<not> minimize_optimization s" for v
    using that assms(2,3) t1
    by (simp add: optimization_function_def first_if_several_def greater_and_set_def)
  have several: "optimization_function x s = (Inl ValueError, s1)" if "2 \<le> length vals"
  proof -
    from that obtain a b rest where v: "vals = a # b # rest"
      by (cases vals; cases "tl vals") auto
    show ?thesis
      using assms(2,3) t1 v
      by (simp add: optimization_function_def greater_and_set_def)
  qed
  have caught: "measure_soft_adaptive fm s0
                  = (if e = StopIteration then (Inr (), finish_all s3) else (Inl e, s3))"
    if "key_adaptive_function (af_pars s0) = Some (PyFunction f)
      \<and> call_optimizer (f (key_others (af_pars s0)))
                (notify (map Prepare [0..<length (sweep_functions s0)] @ [DetPrepare None])
                   (s0\<lparr>af_pars := (af_pars s0)\<lparr>key_adaptive_function := None\<rparr>\<rparr>))
                = (Inl e, s3)"
    for fm s0 f e s3
    using that by (simp add: measure_soft_adaptive_def Let_def notify_def)
  show ?thesis
  proof (intro conjI allI impI)
    fix v assume h: "vals = [v] \<and> minimize_optimization s"
    show "optimization_function x s
              = (if v < t then (Inl StopIteration, s1) else (Inr [v], s1))"
      by (rule mini[OF h])
    then show "call_optimizer (OptCall x k) s
              = (if v < t then (Inl StopIteration, s1) else call_optimizer (k [v]) s1)"
      by simp
  next
    fix v assume h: "vals = [v] \<and> \<not> minimize_optimization s"
    show "optimization_function x s
              = (if v > t then (Inl StopIteration, s1) else (Inr [- v], s1))"
      by (rule maxi[OF h])
    then show "call_optimizer (OptCall x k) s
              = (if v > t then (Inl StopIteration, s1) else call_optimizer (k [- v]) s1)"
      by simp
  next
    assume h: "2 \<le> length vals"
    show "optimization_function x s = (Inl ValueError, s1)" by (rule several[OF h])
    then show "call_optimizer (OptCall x k) s = (Inl ValueError, s1)" by simp
  next
    fix fm s0 f e s3
    assume "key_adaptive_function (af_pars s0) = Some (PyFunction f)
      \<and> call_optimizer (f (key_others (af_pars s0)))
                (notify (map Prepare [0..<length (sweep_functions s0)] @ [DetPrepare None])
                   (s0\<lparr>af_pars := (af_pars s0)\<lparr>key_adaptive_function := None\<rparr>\<rparr>))
                = (Inl e, s3)"
    then show "measure_soft_adaptive fm s0
                  = (if e = StopIteration then (Inr (), finish_all s3) else (Inl e, s3))"
      by (rule caught)
  qed
qed

text \<open>
  The theorem at work: the minimizing run of the example is stopped by the reading 0.05,
  below the threshold 0.1; with the detector of two channels the first call of the
  objective raises a \<^verbatim>\<open>ValueError\<close>, although the first value read, 0.05, is below the
  threshold, and the whole run raises it without a finish notification.
\<close>

theorem adaptive_termination_witness:
  "f_termination adaptive_midrun = Some (1 / 10)
   \<and> rescale (x_scale adaptive_midrun) [2] = Inr [2]
   \<and> fst (measurement_function [2] adaptive_midrun) = Inr [1 / 20]
   \<and> minimize_optimization adaptive_midrun
   \<and> fst (optimization_function [2] adaptive_midrun) = Inl StopIteration
   \<and> f_termination two_channel_ready = Some (1 / 10)
   \<and> rescale (x_scale two_channel_ready) [0] = Inr [0]
   \<and> fst (measurement_function [0] two_channel_ready) = Inr [1 / 20, 7]
   \<and> fst (optimization_function [0] two_channel_ready) = Inl ValueError
   \<and> fst (run example_optimizer ''adaptive'' two_channel_engine) = Inl ValueError
   \<and> finishes (snd (run example_optimizer ''adaptive'' two_channel_engine)) = []"
proof -
  let ?s = "adaptive_midrun"
  let ?u = "two_channel_ready"
  have a: "f_termination ?s = Some (1 / 10)"
    and b: "rescale (x_scale ?s) [2] = Inr [2]"
    and d: "minimize_optimization ?s"
    by (simp_all add: run_eval adaptive_examples)
  have m: "fst (measurement_function [2] ?s) = Inr [1 / 20]"
    by (simp add: run_eval adaptive_examples)
  then have c: "measurement_function [2] ?s = (Inr [1 / 20], snd (measurement_function [2] ?s))"
    by (metis prod.collapse)
  have h: "[1 / 20 :: real] = [1 / 20] \<and> minimize_optimization ?s" using d by simp
  note one = adaptive_termination[OF a b c, THEN conjunct1, rule_format, OF h, THEN conjunct1]
  have stop: "fst (optimization_function [2] ?s) = Inl StopIteration"
    by (simp add: one)
  have a2: "f_termination ?u = Some (1 / 10)"
    and b2: "rescale (x_scale ?u) [0] = Inr [0]"
    by (simp_all add: run_eval adaptive_examples two_channel_ready_def two_channel_engine_def)
  have m2: "fst (measurement_function [0] ?u) = Inr [1 / 20, 7]"
    by (simp add: run_eval adaptive_examples two_channel_ready_def two_channel_engine_def
          two_channel_detector_def)
  then have c2: "measurement_function [0] ?u
      = (Inr [1 / 20, 7], snd (measurement_function [0] ?u))"
    by (metis prod.collapse)
  have h2: "2 \<le> length [1 / 20, 7 :: real]" by simp
  note two = adaptive_termination[OF a2 b2 c2, THEN conjunct2, THEN conjunct2, THEN conjunct1,
      rule_format, OF h2, THEN conjunct1]
  have err: "fst (optimization_function [0] ?u) = Inl ValueError"
    by (simp add: two)
  have r1: "fst (run example_optimizer ''adaptive'' two_channel_engine) = Inl ValueError"
    and r2: "events (snd (run example_optimizer ''adaptive'' two_channel_engine))
       = [Prepare 0, DetPrepare None, SetParameter 0 0, AcquireDataPoint]"
    by (simp_all add: run_eval adaptive_examples two_channel_engine_def
          two_channel_detector_def)
  have r3: "finishes (snd (run example_optimizer ''adaptive'' two_channel_engine)) = []"
    by (simp add: finishes_def r2)
  from a b m d stop a2 b2 m2 err r1 r3 show ?thesis by blast
qed

text \<open>
  The whole adaptive run of the example: the readings 5 and 3 are above the threshold
  0.1, the reading 0.05 is below it; three rows are recorded and the run returns.
\<close>

lemma adaptive_example_run:
  "fst (run example_optimizer ''adaptive'' adaptive_engine) = Inr [[0, 5], [1, 3], [2, 1 / 20]]"
  by (simp add: run_eval adaptive_examples)

text \<open>
  C7 (the code departs from it). A scalar scale factor other than 1 does not divide the
  coordinates: the objective raises a \<^verbatim>\<open>TypeError\<close> at its first coordinate, before any
  measurement, and leaves the engine as it was.
\<close>

theorem scalar_scale_raises:
  assumes "x_scale s = ScaleScalar c" and "c \<noteq> 1" and "x \<noteq> []"
  shows "optimization_function x s = (Inl TypeError, s)"
  using assms by (simp add: optimization_function_def rescale_def)

theorem scalar_scale_raises_witness:
  "x_scale scaled_engine = ScaleScalar 2 \<and> (2 :: real) \<noteq> 1 \<and> [4 :: real] \<noteq> []
   \<and> optimization_function [4] scaled_engine = (Inl TypeError, scaled_engine)"
proof -
  have a: "x_scale scaled_engine = ScaleScalar 2"
    by (simp add: scaled_engine_def set_adaptive_function_parameters_def)
  have b: "(2 :: real) \<noteq> 1" and c: "[4 :: real] \<noteq> []" by simp_all
  show ?thesis
    using a b c scalar_scale_raises[OF a b c] by blast
qed

text \<open>What the rescaling does do: a vector of factors divides coordinate by coordinate, the factor 1 changes nothing, and 1 is the default.\<close>

lemma rescale_loop_divides:
  "length x \<le> length cs \<Longrightarrow> 0 \<notin> set (take (length x) cs)
     \<Longrightarrow> rescale_loop x cs = Inr (map (\<lambda>(a, c). a / c) (zip x cs))"
  by (induction x cs rule: rescale_loop.induct) auto

lemma rescale_one: "rescale (ScaleScalar 1) x = Inr x"
  by (simp add: rescale_def)

lemma x_scale_default:
  "key_x_scale d = None \<Longrightarrow> x_scale (set_adaptive_function_parameters d s) = ScaleScalar 1"
  by (simp add: set_adaptive_function_parameters_def)

text \<open>
  C9. In a run that maximizes without a termination threshold, a call of the objective
  whose measurement is made and reads at least one value raises a \<^verbatim>\<open>TypeError\<close> after
  the measurement; and with a detector that always reads at least one value no call of
  the objective returns.
\<close>

theorem maximize_without_threshold:
  assumes "\<not> minimize_optimization s" and "f_termination s = None"
  shows "(\<forall>x' vals s1. rescale (x_scale s) x = Inr x'
             \<and> measurement_function x' s = (Inr vals, s1) \<and> vals \<noteq> []
             \<longrightarrow> optimization_function x s = (Inl TypeError, s1))
       \<and> ((\<forall>ev. acquire_data_point (detector_function s) ev \<noteq> [])
             \<longrightarrow> (\<forall>v s'. optimization_function x s \<noteq> (Inr v, s')))"
proof -
  have raise: "optimization_function x s = (Inl TypeError, s1)"
    if "rescale (x_scale s) x = Inr x'" "measurement_function x' s = (Inr vals, s1)" "vals \<noteq> []"
    for x' vals s1
  proof -
    have "f_termination s1 = None"
      using measurement_function_config[OF that(2)] assms(2) by (simp add: same_config_def)
    then show ?thesis
      using that assms(1) by (simp add: optimization_function_def greater_and_set_def)
  qed
  have never: "optimization_function x s \<noteq> (Inr v, s')"
    if det: "\<forall>ev. acquire_data_point (detector_function s) ev \<noteq> []" for v s'
  proof (cases "rescale (x_scale s) x")
    case (Inl e)
    then show ?thesis by (simp add: optimization_function_def)
  next
    case (Inr x')
    show ?thesis
    proof (cases "measurement_function x' s")
      case (Pair a s1)
      show ?thesis
      proof (cases a)
        case (Inl e)
        with Pair Inr assms(1) show ?thesis by (simp add: optimization_function_def)
      next
        case r: (Inr vals)
        with Pair have m: "measurement_function x' s = (Inr vals, s1)" by simp
        from measurement_function_Inr(2)[OF m] det have "vals \<noteq> []" by auto
        from raise[OF Inr m this] show ?thesis by simp
      qed
    qed
  qed
  show ?thesis using raise never by blast
qed

theorem maximize_without_threshold_witness:
  "\<not> minimize_optimization maximize_ready \<and> f_termination maximize_ready = None
   \<and> rescale (x_scale maximize_ready) [0] = Inr [0]
   \<and> fst (measurement_function [0] maximize_ready) = Inr [5]
   \<and> fst (optimization_function [0] maximize_ready) = Inl TypeError"
proof -
  have a: "\<not> minimize_optimization maximize_ready"
    and b: "f_termination maximize_ready = None"
    and c: "rescale (x_scale maximize_ready) [0] = Inr [0]"
    by (simp_all add: run_eval adaptive_examples)
  have m: "fst (measurement_function [0] maximize_ready) = Inr [5]"
    by (simp add: run_eval adaptive_examples)
  then have d: "measurement_function [0] maximize_ready
      = (Inr [5], snd (measurement_function [0] maximize_ready))"
    by (metis prod.collapse)
  have "optimization_function [0] maximize_ready
      = (Inl TypeError, snd (measurement_function [0] maximize_ready))"
    using maximize_without_threshold[OF a b, of "[0]"] c d by blast
  then have "fst (optimization_function [0] maximize_ready) = Inl TypeError" by simp
  then show ?thesis using a b c m by blast
qed

subsection \<open>The choice of the optimizer\<close>

text \<open>
  C8 as claimed fails: a callable that is not a plain function is not called, the run
  raises the not-recognized error.
\<close>

theorem callable_optimizer_counterexample:
  "key_adaptive_function (af_pars callable_engine) = Some (PyCallable example_optimizer)
   \<and> fst (measure_soft_adaptive example_optimizer callable_engine) = Inl OptimizerNotRecognized"
  by (simp add: run_eval adaptive_examples)

text \<open>
  C8, amended. \<^verbatim>\<open>'Powell'\<close> runs as the plain function \<^verbatim>\<open>fmin_powell\<close> does. A plain
  function is called with the objective and the remaining keywords; the run returns
  after it, also when it ends by the stop signal, and any other exception of it goes
  through. Every other value, callable or not, makes the run raise the not-recognized
  error, and no finish notification has been sent by then.
\<close>

theorem optimizer_dispatch:
  assumes "key_adaptive_function (af_pars s) = Some af"
  shows "(af = PyStr ''Powell'' \<longrightarrow>
            measure_soft_adaptive fm s
              = measure_soft_adaptive fm
                  (s\<lparr>af_pars := (af_pars s)\<lparr>key_adaptive_function := Some (PyFunction fm)\<rparr>\<rparr>))
       \<and> (\<forall>f. af = PyFunction f \<longrightarrow>
            measure_soft_adaptive fm s
              = (case call_optimizer (f (key_others (af_pars s)))
                       (notify (map Prepare [0..<length (sweep_functions s)] @ [DetPrepare None])
                          (s\<lparr>af_pars := (af_pars s)\<lparr>key_adaptive_function := None\<rparr>\<rparr>)) of
                   (Inl e, s3) \<Rightarrow>
                     (if e = StopIteration then (Inr (), finish_all s3) else (Inl e, s3))
                 | (Inr u, s3) \<Rightarrow> (Inr (), finish_all s3)))
       \<and> (af \<noteq> PyStr ''Powell'' \<and> (\<forall>f. af \<noteq> PyFunction f) \<longrightarrow>
            fst (measure_soft_adaptive fm s) = Inl OptimizerNotRecognized
            \<and> finishes (snd (measure_soft_adaptive fm s)) = finishes s)"
  using assms
  by (cases af)
     (simp_all add: measure_soft_adaptive_def Let_def notify_def finishes_def)

theorem optimizer_dispatch_witness:
  "key_adaptive_function (af_pars callable_engine) = Some (PyCallable example_optimizer)
   \<and> fst (measure_soft_adaptive example_optimizer callable_engine) = Inl OptimizerNotRecognized
   \<and> finishes (snd (measure_soft_adaptive example_optimizer callable_engine)) = []"
proof -
  have a: "key_adaptive_function (af_pars callable_engine) = Some (PyCallable example_optimizer)"
    by (simp add: run_eval adaptive_examples)
  have f: "finishes callable_engine = []"
    by (simp add: finishes_def run_eval adaptive_examples)
  show ?thesis
    using a f optimizer_dispatch[OF a, of example_optimizer] by simp
qed

subsection \<open>The point set of a 2D run\<close>

lemma length_np_tile: "length (np_tile a n) = n * length a"
  by (induction n) (simp_all add: np_tile_def)

lemma nth_np_tile:
  "k < n * length a \<Longrightarrow> np_tile a n ! k = a ! (k mod length a)"
proof (induction n arbitrary: k)
  case 0
  then show ?case by simp
next
  case (Suc n)
  have unfold: "np_tile a (Suc n) = a @ np_tile a n" by (simp add: np_tile_def)
  show ?case
  proof (cases "k < length a")
    case True
    then show ?thesis by (simp add: unfold nth_append)
  next
    case False
    then have "k - length a < n * length a" using Suc.prems by simp
    from Suc.IH[OF this] False show ?thesis
      by (simp add: unfold nth_append le_mod_geq)
  qed
qed

lemma length_np_repeat: "length (np_repeat b m) = m * length b"
  by (induction b) (simp_all add: np_repeat_def)

lemma nth_np_repeat:
  "k < m * length b \<Longrightarrow> np_repeat b m ! k = b ! (k div m)"
proof (induction b arbitrary: k)
  case Nil
  then show ?case by simp
next
  case (Cons y b)
  have unfold: "np_repeat (y # b) m = replicate m y @ np_repeat b m" by (simp add: np_repeat_def)
  show ?case
  proof (cases "k < m")
    case True
    then show ?thesis by (simp add: unfold nth_append)
  next
    case False
    then have m: "0 < m" "m \<le> k" using Cons.prems by (cases m; simp)+
    then have "k - m < m * length b" using Cons.prems by simp
    from Cons.IH[OF this] False m show ?thesis
      by (simp add: unfold nth_append le_div_geq)
  qed
qed

text \<open>
  C5. A 2D run whose sweep points are a one-dimensional array \<open>xs\<close> of \<open>m\<close> points takes
  the reshaping branch; with \<open>n\<close> outer points \<open>ys\<close> the reshaping returns and the sweep
  points become the column stack of \<open>xs\<close> tiled \<open>n\<close> times and \<open>ys\<close> repeated \<open>m\<close> times
  each. That array has \<open>m * n\<close> rows; row \<open>k\<close> is \<open>(xs[k mod m], ys[k div m])\<close>, the inner
  axis running fastest; and its first \<open>m\<close> rows are the inner points beside the first
  outer point. What the run does next with the combined points: with one value name the
  allocation of the 2D buffer raises a \<^verbatim>\<open>TypeError\<close> and nothing is measured; otherwise the
  buffer is allocated and the measurement runs on the combined points.
\<close>

theorem expand_2D_points:
  assumes "get_sweep_points s = Inr (Pts1 xs)" and "xs \<noteq> []"
    and "sweep_points_2D s = Some ys"
  shows "first_size (Pts1 xs) = Inr 1
       \<and> fst (reshape_sweep_points (Pts1 xs) s) = Inr ()
       \<and> get_sweep_points (snd (reshape_sweep_points (Pts1 xs) s))
           = Inr (Pts2 (map (\<lambda>(x, y). [x, y])
                   (zip (np_tile xs (length ys)) (np_repeat ys (length xs)))))
       \<and> measure_2D s
           = (if length (value_names (detector_function s)) = 1
              then (Inl TypeError, snd (reshape_sweep_points (Pts1 xs) s))
              else measure_mc
                     ((snd (reshape_sweep_points (Pts1 xs) s))
                        \<lparr>TwoD_array := Some [length ys, length xs,
                                              length (value_names (detector_function s))]\<rparr>))
       \<and> length (map (\<lambda>(x, y). [x, y])
                   (zip (np_tile xs (length ys)) (np_repeat ys (length xs))))
           = length xs * length ys
       \<and> (\<forall>k < length xs * length ys.
            map (\<lambda>(x, y). [x, y]) (zip (np_tile xs (length ys)) (np_repeat ys (length xs))) ! k
              = [xs ! (k mod length xs), ys ! (k div length xs)])
       \<and> (ys \<noteq> [] \<longrightarrow>
            take (length xs)
              (map (\<lambda>(x, y). [x, y]) (zip (np_tile xs (length ys)) (np_repeat ys (length xs))))
              = map (\<lambda>x. [x, hd ys]) xs)"
proof -
  let ?c = "map (\<lambda>(x, y). [x, y]) (zip (np_tile xs (length ys)) (np_repeat ys (length xs)))"
  have sf: "sweep_functions s \<noteq> []"
    using assms(1) by (auto simp: get_sweep_points_def split: list.splits)
  have first: "first_size (Pts1 xs) = Inr 1"
    using assms(2) by (cases xs) simp_all
  have stack: "tile_and_stack (Pts1 xs) ys (length xs) (length ys) = Inr (Pts2 ?c)"
    by (simp add: length_np_tile length_np_repeat mult.commute)
  have reshape: "reshape_sweep_points (Pts1 xs) s
      = set_sweep_points (Pts2 ?c) (s\<lparr>xlen := Some (length xs), ylen := Some (length ys)\<rparr>)"
    using assms(3) stack by (simp add: reshape_sweep_points_def len_pts_def Let_def)
  have ok: "fst (reshape_sweep_points (Pts1 xs) s) = Inr ()"
    and got: "get_sweep_points (snd (reshape_sweep_points (Pts1 xs) s)) = Inr (Pts2 ?c)"
    using sf unfolding reshape
    by (cases "sweep_functions s";
        simp add: set_sweep_points_def get_sweep_points_def np_array_def)+
  have m2d: "measure_2D s
           = (if length (value_names (detector_function s)) = 1
              then (Inl TypeError, snd (reshape_sweep_points (Pts1 xs) s))
              else measure_mc
                     ((snd (reshape_sweep_points (Pts1 xs) s))
                        \<lparr>TwoD_array := Some [length ys, length xs,
                                              length (value_names (detector_function s))]\<rparr>))"
  proof -
    obtain r s1 where rs: "reshape_sweep_points (Pts1 xs) s = (r, s1)"
      by (cases "reshape_sweep_points (Pts1 xs) s")
    with ok have r: "r = Inr ()" by simp
    have s1: "sweep_points_2D s1 = Some ys" "detector_function s1 = detector_function s"
      using rs sf assms(3) unfolding reshape
      by (cases "sweep_functions s"; auto simp: set_sweep_points_def)+
    show ?thesis
      using rs r s1 assms(1) first
      by (simp add: measure_2D_def preallocate_2D_plot_def len_pts_def Let_def)
  qed
  have len: "length ?c = length xs * length ys"
    by (simp add: length_np_tile length_np_repeat mult.commute)
  have row: "?c ! k = [xs ! (k mod length xs), ys ! (k div length xs)]"
    if "k < length xs * length ys" for k
  proof -
    have a: "k < length ys * length xs" using that by (simp add: mult.commute)
    show ?thesis
      using that a by (simp add: length_np_tile length_np_repeat nth_np_tile nth_np_repeat)
  qed
  have firstrows: "take (length xs) ?c = map (\<lambda>x. [x, hd ys]) xs" if "ys \<noteq> []"
  proof (rule nth_equalityI)
    have "length xs \<le> length xs * length ys" using that by (cases ys) simp_all
    then show "length (take (length xs) ?c) = length (map (\<lambda>x. [x, hd ys]) xs)"
      using len by simp
  next
    fix i assume "i < length (take (length xs) ?c)"
    then have i: "i < length xs" by simp
    then have "i < length xs * length ys" using that by (cases ys) (simp_all add: trans_less_add1)
    from row[OF this] i that show "take (length xs) ?c ! i = map (\<lambda>x. [x, hd ys]) xs ! i"
      by (simp add: hd_conv_nth)
  qed
  show ?thesis
    using first ok got m2d len row firstrows by blast
qed

theorem expand_2D_points_witness:
  "get_sweep_points twoD_engine = Inr (Pts1 [0, 1]) \<and> [0, 1 :: real] \<noteq> []
   \<and> sweep_points_2D twoD_engine = Some [10, 20]
   \<and> get_sweep_points (snd (reshape_sweep_points (Pts1 [0, 1]) twoD_engine))
       = Inr (Pts2 [[0, 10], [1, 10], [0, 20], [1, 20]])
   \<and> fst (measure_2D twoD_engine) = Inl TypeError"
proof -
  have a: "get_sweep_points twoD_engine = Inr (Pts1 [0, 1])"
    and c: "sweep_points_2D twoD_engine = Some [10, 20]"
    by (simp_all add: twoD_engine_def example_engine_def get_sweep_points_def)
  have b: "[0, 1 :: real] \<noteq> []" by simp
  have e: "map (\<lambda>(x, y). [x, y])
             (zip (np_tile [0, 1 :: real] (length [10, 20 :: real]))
                  (np_repeat [10, 20 :: real] (length [0, 1 :: real])))
           = [[0, 10], [1, 10], [0, 20], [1, 20]]"
    by (simp add: np_tile_def np_repeat_def numeral_2_eq_2)
  have v: "length (value_names (detector_function twoD_engine)) = 1"
    by (simp add: twoD_engine_def example_engine_def example_detector_def)
  note th = expand_2D_points[OF a b c]
  have g: "get_sweep_points (snd (reshape_sweep_points (Pts1 [0, 1]) twoD_engine))
       = Inr (Pts2 [[0, 10], [1, 10], [0, 20], [1, 20]])"
    using th e by simp
  have "measure_2D twoD_engine
      = (Inl TypeError, snd (reshape_sweep_points (Pts1 [0, 1]) twoD_engine))"
    using th v by simp
  then have t: "fst (measure_2D twoD_engine) = Inl TypeError" by simp
  from a b c g t show ?thesis by blast
qed

subsection \<open>The table under a block\<close>

text \<open>
  Whole numbers are doubles. When the row count is a multiple of the block's row count
  the chunk arithmetic is therefore exact.
\<close>

lemma fl_whole: "q \<in> \<int> \<Longrightarrow> fl q = q"
  by (auto simp: fl_def elim: Ints_cases)

lemma chunk_number:
  assumes "0 < r" and "r dvd n"
  shows "fl (fl (of_nat n / of_nat r) + 1) = of_nat n / of_nat r + 1"
    and "fl (fl (of_nat n / of_nat r) + 1) = of_nat (n div r + 1)"
proof -
  from assms obtain j where n: "n = r * j" by (auto simp: dvd_def)
  with assms(1) have q: "(of_nat n / of_nat r :: rat) = of_nat j" by simp
  have e: "fl (fl (of_nat j) + 1) = of_nat j + 1" by (simp add: fl_whole)
  with q show "fl (fl (of_nat n / of_nat r) + 1) = of_nat n / of_nat r + 1" by simp
  from e q n assms(1) show "fl (fl (of_nat n / of_nat r) + 1) = of_nat (n div r + 1)" by simp
qed

lemma chunk_start:
  assumes "0 < r" and "r dvd n"
  shows "nat \<lfloor>fl (of_nat r * fl (fl (fl (of_nat n / of_nat r) + 1) - 1))\<rfloor> = n"
proof -
  from assms obtain j where n: "n = r * j" by (auto simp: dvd_def)
  with assms(1) have q: "(of_nat n / of_nat r :: rat) = of_nat j" by simp
  have "fl (fl (of_nat n / of_nat r) + 1) - 1 = of_nat j"
    using chunk_number(1)[OF assms] q by simp
  then have "fl (of_nat r * fl (fl (fl (of_nat n / of_nat r) + 1) - 1)) = of_nat r * of_nat j"
    by (simp add: fl_whole)
  also have "\<dots> = of_nat n" using n by simp
  finally show ?thesis by simp
qed

lemma chunk_rows:
  assumes "0 < r" and "r dvd n"
  shows "nat \<lfloor>fl (of_nat r * fl (fl (of_nat n / of_nat r) + 1))\<rfloor> = n + r"
proof -
  from assms obtain j where n: "n = r * j" by (auto simp: dvd_def)
  with assms(1) have q: "(of_nat n / of_nat r :: rat) = of_nat j" by simp
  have "fl (fl (of_nat n / of_nat r) + 1) = of_nat j + 1"
    using chunk_number(1)[OF assms] q by simp
  then have "fl (of_nat r * fl (fl (of_nat n / of_nat r) + 1)) = of_nat r * (of_nat j + 1)"
    by (simp add: fl_whole)
  also have "\<dots> = of_nat (n + r)" using n by (simp add: algebra_simps)
  finally show ?thesis by (simp del: of_nat_add)
qed

text \<open>With a 2D buffer \<^verbatim>\<open>measure_hard\<close> does not return.\<close>

lemma hard_plot_and_return_Inr:
  "hard_plot_and_return b s = (Inr b', s') \<longleftrightarrow> TwoD_array s = None \<and> b' = b \<and> s' = s"
  by (auto simp: hard_plot_and_return_def update_plotmon_2D_hard_def split: option.splits)

lemma measure_hard_Inr_no_buffer:
  assumes "measure_hard s = (Inr b, s')"
  shows "TwoD_array s = None"
  using assms
  by (auto simp: measure_hard_def Let_def notify_def hard_plot_and_return_def
                 update_plotmon_2D_hard_def
           split: if_splits option.splits sum.splits)

lemma h5_assign1_length: "h5_assign1 n src = Some vs \<Longrightarrow> length vs = n"
  by (auto simp: h5_assign1_def split: if_splits)

lemma h5_assign2_shape:
  "h5_assign2 nr nc src = Some blk \<Longrightarrow> length blk = nr \<and> (\<forall>row \<in> set blk. length row = nc)"
  by (auto simp: h5_assign2_def Let_def split: if_splits)

lemma h5_assign2_exact:
  assumes "length src = nr" and "\<forall>row \<in> set src. length row = nc"
  shows "h5_assign2 nr nc src = Some src"
proof -
  have "map (\<lambda>i. let r = (if length src = nr then src ! i else hd src)
                  in (if length r = nc then r else replicate nc (hd r))) [0..<nr] = src"
    using assms by (intro nth_equalityI) (simp_all add: Let_def)
  then show ?thesis using assms by (simp add: h5_assign2_def)
qed

lemma length_put_cells:
  "c + length vs \<le> length row \<Longrightarrow> length (put_cells c vs row) = length row"
  by (simp add: put_cells_def)

lemma drop_put_cells0:
  "length vs \<le> S \<Longrightarrow> drop S (put_cells 0 vs row) = drop S row"
  by (simp add: put_cells_def)

lemma put_cells_fill:
  "length vs = V \<Longrightarrow> put_cells S vs (replicate (S + V) 0) = replicate S 0 @ vs"
  by (simp add: put_cells_def)

lemma length_put_block:
  "start + length new \<le> length rs \<Longrightarrow> length (put_block start c new rs) = length rs"
  by (simp add: put_block_def)

lemma nth_put_block:
  assumes "start + length new \<le> length rs" and "i < length rs"
  shows "put_block start c new rs ! i
       = (if start \<le> i \<and> i < start + length new
          then put_cells c (new ! (i - start)) (rs ! i) else rs ! i)"
  using assms by (auto simp: put_block_def nth_append)

lemma put_block_append:
  "length new = length Z \<Longrightarrow>
   put_block (length R) c new (R @ Z) = R @ map (\<lambda>(vs, row). put_cells c vs row) (zip new Z)"
  by (simp add: put_block_def)

lemma np_T_shape:
  assumes "chans = c # cs" and "\<forall>ch \<in> set chans. length ch = r"
  shows "length (np_T chans) = r" and "\<forall>row \<in> set (np_T chans). length row = length chans"
  using assms by (auto simp: np_T_def)

lemma block_rows_shape_conj:
  assumes "block_ok r V b"
  shows "len_new_data b = r \<and> length (block_rows b) = r
       \<and> (\<forall>vs \<in> set (block_rows b). length vs = V)"
proof (cases b)
  case (Block1 v)
  with assms show ?thesis by auto
next
  case (Block2 chans)
  with assms obtain c cs where cs: "chans = c # cs" by (cases chans) auto
  from np_T_shape[OF cs] Block2 assms show ?thesis by auto
qed

lemma block_rows_shape:
  assumes "block_ok r V b"
  shows "len_new_data b = r" and "length (block_rows b) = r"
    and "\<forall>vs \<in> set (block_rows b). length vs = V"
  using block_rows_shape_conj[OF assms] by simp_all

text \<open>The value cells of a block land in fresh rows below the rows of the table.\<close>

lemma write_values_fresh:
  assumes ok: "block_ok r V b" and cols: "ncols d = S + V" and rows: "rows d = R"
  shows "write_values (length R) S b (resize d (length R + r))
       = Some (d\<lparr>rows := R @ map (\<lambda>vs. replicate S 0 @ vs) (block_rows b)\<rparr>)"
proof -
  note sh = block_rows_shape[OF ok]
  let ?Z = "replicate r (replicate (S + V) (0 :: real))"
  have rz: "resize d (length R + r) = d\<lparr>rows := R @ ?Z\<rparr>"
    using cols rows by (simp add: resize_def)
  have fill: "map (\<lambda>(vs, row). put_cells S vs row) (zip (block_rows b) ?Z)
            = map (\<lambda>vs. replicate S 0 @ vs) (block_rows b)"
    using sh(2,3)
    by (intro nth_equalityI) (simp_all add: put_cells_fill)
  have put: "put_block (length R) S (block_rows b) (R @ ?Z)
           = R @ map (\<lambda>vs. replicate S 0 @ vs) (block_rows b)"
    using sh(2) by (simp add: put_block_append fill)
  show ?thesis
  proof (cases b)
    case (Block1 v)
    with ok have v: "length v = r" "V = 1" by auto
    then have "h5_assign1 r v = Some v" by (simp add: h5_assign1_def)
    with Block1 v put cols show ?thesis by (simp add: rz)
  next
    case (Block2 chans)
    with sh have "h5_assign2 r V (np_T chans) = Some (np_T chans)"
      by (intro h5_assign2_exact) auto
    with Block2 put cols show ?thesis by (simp add: rz)
  qed
qed

lemma measure_hard_unfold:
  assumes ok: "block_ok r V (get_values (detector_function s) (events s))" and r: "0 < r"
    and cols: "ncols (dset s) = length (sweep_functions s) + V"
    and dv: "r dvd length (rows (dset s))" and nb: "TwoD_array s = None"
  shows "measure_hard s =
     (let b = get_values (detector_function s) (events s);
          s4 = after_values s
      in case get_sweep_points s of
           Inl e \<Rightarrow> (Inl e, s4)
         | Inr P \<Rightarrow>
             if len_T P = r then
               (case write_full_sweep P (dset s4) of
                  None \<Rightarrow> (Inl StoreError, s4)
                | Some d' \<Rightarrow> (Inr b, s4\<lparr>dset := d'\<rparr>))
             else if (mode s = ''2D'' \<and> mode_interned s) then
               (case write_window_sweep (length (rows (dset s))) r
                       (length (sweep_functions s)) P (dset s4) of
                  None \<Rightarrow> (Inl StoreError, s4)
                | Some d' \<Rightarrow> (Inr b, s4\<lparr>dset := d'\<rparr>))
             else (Inr b, s4))"
proof -
  let ?b = "get_values (detector_function s) (events s)"
  let ?n = "length (rows (dset s))"
  let ?S = "length (sweep_functions s)"
  note sh = block_rows_shape[OF ok]
  have w: "write_values ?n ?S ?b (resize (dset s) (?n + r))
         = Some ((dset s)\<lparr>rows := rows (dset s)
                      @ map (\<lambda>vs. replicate ?S 0 @ vs) (block_rows ?b)\<rparr>)"
    by (rule write_values_fresh[OF ok cols refl])
  let ?L = "len_new_data ?b"
  define it where "it = fl (fl (of_nat ?n / of_nat ?L) + 1)"
  define st where "st = nat \<lfloor>fl (of_nat ?L * fl (it - 1))\<rfloor>"
  define nr where "nr = nat \<lfloor>fl (of_nat ?L * it)\<rfloor>"
  have nz: "?L \<noteq> 0" using sh(1) r by simp
  have e1: "measure_hard s =
     (let s3 = s\<lparr>events := events s @ [GetValues],
                  iteration := it, iteration_is_float := True,
                  dset := resize (dset s) nr\<rparr>
      in case write_values st ?S ?b (dset s3) of
                None \<Rightarrow> (Inl StoreError, s3)
              | Some d \<Rightarrow>
                  let s4 = s3\<lparr>dset := d\<rparr> in
                  (case get_sweep_points s4 of
                     Inl e \<Rightarrow> (Inl e, s4)
                   | Inr P \<Rightarrow>
                       if len_T P = ?L then
                         (case write_full_sweep P (dset s4) of
                            None \<Rightarrow> (Inl StoreError, s4)
                          | Some d' \<Rightarrow> hard_plot_and_return ?b (s4\<lparr>dset := d'\<rparr>))
                       else if mode s4 = ''2D'' \<and> mode_interned s4 then
                         (case write_window_sweep st ?L ?S P (dset s4) of
                            None \<Rightarrow> (Inl StoreError, s4)
                          | Some d' \<Rightarrow> hard_plot_and_return ?b (s4\<lparr>dset := d'\<rparr>))
                       else hard_plot_and_return ?b s4))"
    using nz
    by (simp add: it_def st_def nr_def measure_hard_def Let_def notify_def
          cong: option.case_cong sum.case_cong if_cong)
  have itv: "it = of_nat ?n / of_nat ?L + 1"
    unfolding it_def sh(1) by (rule chunk_number(1)[OF r dv])
  have stv: "st = ?n"
    unfolding st_def it_def sh(1) by (rule chunk_start[OF r dv])
  have nrv: "nr = ?n + r"
    unfolding nr_def it_def sh(1) by (rule chunk_rows[OF r dv])
  show ?thesis
    unfolding e1 itv stv nrv using w nb sh(1)
    by (simp add: after_values_def Let_def hard_plot_and_return_def get_sweep_points_def
        split: sum.splits option.splits list.splits)
qed

lemma put_block_sweep:
  assumes fit: "start + length blk \<le> length rs"
    and blk: "\<forall>vs \<in> set blk. length vs = nc" and nc: "nc \<le> S" "nc \<le> C"
    and rs: "\<forall>row \<in> set rs. length row = C"
  shows "length (put_block start 0 blk rs) = length rs"
    and "\<forall>row \<in> set (put_block start 0 blk rs). length row = C"
    and "map (drop S) (put_block start 0 blk rs) = map (drop S) rs"
    and "take start (put_block start 0 blk rs) = take start rs"
proof -
  show len: "length (put_block start 0 blk rs) = length rs"
    using fit by (rule length_put_block)
  have row: "length (put_block start 0 blk rs ! i) = C
           \<and> drop S (put_block start 0 blk rs ! i) = drop S (rs ! i)"
    if "i < length rs" for i
  proof (cases "start \<le> i \<and> i < start + length blk")
    case True
    then have "i - start < length blk" by linarith
    then have "blk ! (i - start) \<in> set blk" by simp
    with blk have l: "length (blk ! (i - start)) = nc" by blast
    have "length (rs ! i) = C" using rs that by simp
    then show ?thesis
      using True l nc that
      by (simp add: nth_put_block[OF fit that] length_put_cells drop_put_cells0)
  next
    case False
    then show ?thesis using rs that by (auto simp: nth_put_block[OF fit that])
  qed
  show "\<forall>row \<in> set (put_block start 0 blk rs). length row = C"
    using row len by (auto simp: in_set_conv_nth)
  show "map (drop S) (put_block start 0 blk rs) = map (drop S) rs"
    using row len by (intro nth_equalityI) simp_all
  show "take start (put_block start 0 blk rs) = take start rs"
    using fit by (simp add: put_block_def)
qed

lemma write_full_sweep_frame:
  assumes w: "write_full_sweep P d = Some d'" and ok: "table_ok d" and S: "0 < S"
  shows "ncols d' = ncols d \<and> length (rows d') = length (rows d) \<and> table_ok d'
       \<and> map (drop S) (rows d') = map (drop S) (rows d)"
proof -
  from w obtain vs where vs: "length vs = length (rows d)"
    and d': "d' = d\<lparr>rows := put_block 0 0 (map (\<lambda>x. [x]) vs) (rows d)\<rparr>" and c: "ncols d \<noteq> 0"
    by (cases P) (auto split: if_splits option.splits dest: h5_assign1_length)
  have one: "\<forall>u \<in> set (map (\<lambda>x. [x]) vs). length u = 1" by simp
  have fit: "0 + length (map (\<lambda>x. [x]) vs) \<le> length (rows d)" using vs by simp
  have c1: "1 \<le> S" "1 \<le> ncols d" using S c by simp_all
  have rs: "\<forall>row \<in> set (rows d). length row = ncols d" using ok by (simp add: table_ok_def)
  note pb = put_block_sweep[OF fit one c1 rs]
  have "ncols d' = ncols d" by (simp add: d')
  moreover have "length (rows d') = length (rows d)" using pb(1) by (simp add: d')
  moreover have "table_ok d'" using pb(2) by (simp add: d' table_ok_def)
  moreover have "map (drop S) (rows d') = map (drop S) (rows d)" using pb(3) by (simp add: d')
  ultimately show ?thesis by blast
qed

lemma write_window_sweep_frame:
  assumes w: "write_window_sweep start r S P d = Some d'" and ok: "table_ok d"
    and start: "start \<le> length (rows d)"
  shows "ncols d' = ncols d \<and> length (rows d') = length (rows d) \<and> table_ok d'
       \<and> map (drop S) (rows d') = map (drop S) (rows d)"
    and "take start (rows d') = take start (rows d)"
proof -
  from w obtain blk where blk: "length blk = length (rows d) - start"
      "\<forall>row \<in> set blk. length row = min S (ncols d)"
    and d': "d' = d\<lparr>rows := put_block start 0 blk (rows d)\<rparr>"
    by (cases P) (auto split: option.splits dest: h5_assign2_shape)
  have fit: "start + length blk \<le> length (rows d)" using blk(1) start by simp
  have c1: "min S (ncols d) \<le> S" "min S (ncols d) \<le> ncols d" by simp_all
  have rs: "\<forall>row \<in> set (rows d). length row = ncols d" using ok by (simp add: table_ok_def)
  note pb = put_block_sweep[OF fit blk(2) c1 rs]
  have "ncols d' = ncols d" by (simp add: d')
  moreover have "length (rows d') = length (rows d)" using pb(1) by (simp add: d')
  moreover have "table_ok d'" using pb(2) by (simp add: d' table_ok_def)
  moreover have "map (drop S) (rows d') = map (drop S) (rows d)" using pb(3) by (simp add: d')
  ultimately show "ncols d' = ncols d \<and> length (rows d') = length (rows d) \<and> table_ok d'
       \<and> map (drop S) (rows d') = map (drop S) (rows d)" by blast
  show "take start (rows d') = take start (rows d)" using pb(4) by (simp add: d')
qed

text \<open>The three ways in which a call of \<^verbatim>\<open>measure_hard\<close> returns.\<close>

lemma measure_hard_cases:
  assumes m: "measure_hard s = (Inr b, s')"
    and ok: "block_ok r V (get_values (detector_function s) (events s))" and r: "0 < r"
    and cols: "ncols (dset s) = length (sweep_functions s) + V"
    and dv: "r dvd length (rows (dset s))"
  obtains P d' where "get_sweep_points s = Inr P"
    and "b = get_values (detector_function s) (events s)"
    and "s' = (after_values s)\<lparr>dset := d'\<rparr>"
    and "(len_T P = r \<and> write_full_sweep P (dset (after_values s)) = Some d')
       \<or> (len_T P \<noteq> r \<and> (mode s = ''2D'' \<and> mode_interned s)
           \<and> write_window_sweep (length (rows (dset s))) r (length (sweep_functions s)) P
                (dset (after_values s)) = Some d')
       \<or> (len_T P \<noteq> r \<and> \<not> (mode s = ''2D'' \<and> mode_interned s) \<and> d' = dset (after_values s))"
proof -
  let ?S = "length (sweep_functions s)"
  let ?b = "get_values (detector_function s) (events s)"
  let ?s4 = "after_values s"
  have u': "measure_hard s =
     (case get_sweep_points s of
        Inl e \<Rightarrow> (Inl e, ?s4)
      | Inr P \<Rightarrow>
          if len_T P = r then
            (case write_full_sweep P (dset ?s4) of
               None \<Rightarrow> (Inl StoreError, ?s4)
             | Some d' \<Rightarrow> (Inr ?b, ?s4\<lparr>dset := d'\<rparr>))
          else if (mode s = ''2D'' \<and> mode_interned s) then
            (case write_window_sweep (length (rows (dset s))) r ?S P (dset ?s4) of
               None \<Rightarrow> (Inl StoreError, ?s4)
             | Some d' \<Rightarrow> (Inr ?b, ?s4\<lparr>dset := d'\<rparr>))
          else (Inr ?b, ?s4))"
    using measure_hard_unfold[OF ok r cols dv measure_hard_Inr_no_buffer[OF m]]
    by (simp only: Let_def)
  obtain P where P: "get_sweep_points s = Inr P"
  proof (cases "get_sweep_points s")
    case (Inl e)
    with m u' show ?thesis by simp
  next
    case (Inr P)
    then show ?thesis by (rule that)
  qed
  have e: "(if len_T P = r then
            (case write_full_sweep P (dset ?s4) of
               None \<Rightarrow> (Inl StoreError, ?s4)
             | Some d' \<Rightarrow> (Inr ?b, ?s4\<lparr>dset := d'\<rparr>))
          else if (mode s = ''2D'' \<and> mode_interned s) then
            (case write_window_sweep (length (rows (dset s))) r ?S P (dset ?s4) of
               None \<Rightarrow> (Inl StoreError, ?s4)
             | Some d' \<Rightarrow> (Inr ?b, ?s4\<lparr>dset := d'\<rparr>))
          else (Inr ?b, ?s4)) = (Inr b, s')"
    using m u' P by simp
  show ?thesis
  proof (cases "len_T P = r")
    case True
    with e obtain d' where w: "write_full_sweep P (dset ?s4) = Some d'"
      and bs: "b = ?b" "s' = ?s4\<lparr>dset := d'\<rparr>"
      by (cases "write_full_sweep P (dset ?s4)") simp_all
    from True w show ?thesis by (intro that[OF P bs]) simp
  next
    case False
    show ?thesis
    proof (cases "mode s = ''2D'' \<and> mode_interned s")
      case True
      with False e obtain d' where
        w: "write_window_sweep (length (rows (dset s))) r ?S P (dset ?s4) = Some d'"
        and bs: "b = ?b" "s' = ?s4\<lparr>dset := d'\<rparr>"
        by (cases "write_window_sweep (length (rows (dset s))) r ?S P (dset ?s4)") simp_all
      from False True w show ?thesis by (intro that[OF P bs]) simp
    next
      case m1: False
      with False e have bs: "b = ?b" "s' = ?s4\<lparr>dset := dset ?s4\<rparr>" by simp_all
      from False m1 show ?thesis by (intro that[OF P bs]) simp
    qed
  qed
qed

lemma after_values_table:
  assumes ok: "block_ok r V (get_values (detector_function s) (events s))"
    and cols: "ncols (dset s) = length (sweep_functions s) + V"
    and tbl: "table_ok (dset s)"
  shows "table_ok (dset (after_values s))"
    and "ncols (dset (after_values s)) = ncols (dset s)"
    and "length (rows (dset (after_values s))) = length (rows (dset s)) + r"
    and "map (drop (length (sweep_functions s))) (rows (dset (after_values s)))
           = map (drop (length (sweep_functions s))) (rows (dset s))
             @ block_rows (get_values (detector_function s) (events s))"
    and "take (length (rows (dset s))) (rows (dset (after_values s))) = rows (dset s)"
    and "same_config s (after_values s)"
    and "events (after_values s) = events s @ [GetValues]"
    and "iteration (after_values s) = of_nat (length (rows (dset s))) / of_nat r + 1"
  using tbl cols block_rows_shape[OF ok]
  by (auto simp: after_values_def Let_def table_ok_def comp_def same_config_def finishes_def)

lemma measure_hard_step:
  assumes m: "measure_hard s = (Inr b, s')"
    and ok: "block_ok r V (get_values (detector_function s) (events s))" and r: "0 < r"
    and cols: "ncols (dset s) = length (sweep_functions s) + V"
    and tbl: "table_ok (dset s)"
    and dv: "r dvd length (rows (dset s))"
  shows "b = get_values (detector_function s) (events s)"
    and "events s' = events s @ [GetValues]"
    and "iteration s' = of_nat (length (rows (dset s))) / of_nat r + 1"
    and "length (rows (dset s')) = length (rows (dset s)) + r"
    and "ncols (dset s') = ncols (dset s)"
    and "table_ok (dset s')"
    and "map (drop (length (sweep_functions s))) (rows (dset s'))
           = map (drop (length (sweep_functions s))) (rows (dset s)) @ block_rows b"
    and "same_config s s'"
    and "\<forall>P. get_sweep_points s = Inr P \<and> len_T P \<noteq> r
           \<longrightarrow> take (length (rows (dset s))) (rows (dset s')) = rows (dset s)"
proof -
  let ?S = "length (sweep_functions s)"
  let ?s4 = "after_values s"
  note t4 = after_values_table[OF ok cols tbl]
  from measure_hard_cases[OF m ok r cols dv] obtain P d' where
    P: "get_sweep_points s = Inr P" and b: "b = get_values (detector_function s) (events s)"
    and s': "s' = ?s4\<lparr>dset := d'\<rparr>"
    and w: "(len_T P = r \<and> write_full_sweep P (dset ?s4) = Some d')
       \<or> (len_T P \<noteq> r \<and> (mode s = ''2D'' \<and> mode_interned s)
           \<and> write_window_sweep (length (rows (dset s))) r ?S P (dset ?s4) = Some d')
       \<or> (len_T P \<noteq> r \<and> \<not> (mode s = ''2D'' \<and> mode_interned s) \<and> d' = dset ?s4)"
    by blast
  from P have S: "0 < ?S" by (auto simp: get_sweep_points_def split: list.splits)
  have le: "length (rows (dset s)) \<le> length (rows (dset ?s4))" using t4(3) by simp
  have d': "ncols d' = ncols (dset ?s4) \<and> length (rows d') = length (rows (dset ?s4))
           \<and> table_ok d' \<and> map (drop ?S) (rows d') = map (drop ?S) (rows (dset ?s4))"
    using w write_full_sweep_frame[OF _ t4(1) S, of P d']
      write_window_sweep_frame(1)[OF _ t4(1) le, of r ?S P d'] t4(1)
    by blast
  have keep: "take (length (rows (dset s))) (rows d') = rows (dset s)" if "len_T P \<noteq> r"
    using w that write_window_sweep_frame(2)[OF _ t4(1) le, of r ?S P d'] t4(5)
    by auto
  show "b = get_values (detector_function s) (events s)" by (rule b)
  show "events s' = events s @ [GetValues]" using t4(7) by (simp add: s')
  show "iteration s' = of_nat (length (rows (dset s))) / of_nat r + 1"
    using t4(8) by (simp add: s')
  show "length (rows (dset s')) = length (rows (dset s)) + r" using d' t4(3) by (simp add: s')
  show "ncols (dset s') = ncols (dset s)" using d' t4(2) by (simp add: s')
  show "table_ok (dset s')" using d' by (simp add: s')
  show "map (drop ?S) (rows (dset s')) = map (drop ?S) (rows (dset s)) @ block_rows b"
    using d' t4(4) b by (simp add: s')
  show "same_config s s'" using t4(6) by (simp add: s' same_config_def finishes_def)
  show "\<forall>P. get_sweep_points s = Inr P \<and> len_T P \<noteq> r
           \<longrightarrow> take (length (rows (dset s))) (rows (dset s')) = rows (dset s)"
    using keep P by (simp add: s')
qed

subsection \<open>Blocks in a row\<close>

lemma h5_assign1_again:
  assumes "h5_assign1 n src = Some vs" and "h5_assign1 (n + r) src = Some vs'"
    and "0 < n" and "0 < r"
  shows "take n vs' = vs"
proof -
  from assms have l: "length src = 1" by (auto simp: h5_assign1_def split: if_splits)
  then obtain x where "src = [x]" by (cases src) auto
  with assms show ?thesis by (auto simp: h5_assign1_def split: if_splits)
qed

lemma write_full_sweep_eq:
  assumes "write_full_sweep P d = Some d'"
  shows "\<exists>vs. h5_assign1 (length (rows d)) (first_column P) = Some vs
            \<and> d' = d\<lparr>rows := put_block 0 0 (map (\<lambda>x. [x]) vs) (rows d)\<rparr>"
  using assms by (cases P) (auto split: if_splits option.splits)

lemma get_sweep_points_config:
  "same_config s s' \<Longrightarrow> get_sweep_points s' = get_sweep_points s"
  by (simp add: same_config_def get_sweep_points_def)

lemma measure_hard_keeps_rows:
  assumes m: "measure_hard s = (Inr b, s')"
    and ok: "block_ok r V (get_values (detector_function s) (events s))" and r: "0 < r"
    and cols: "ncols (dset s) = length (sweep_functions s) + V"
    and tbl: "table_ok (dset s)"
    and dv: "r dvd length (rows (dset s))"
    and J: "sweep_column_written r s"
  shows "take (length (rows (dset s))) (rows (dset s')) = rows (dset s)"
    and "sweep_column_written r s'"
proof -
  let ?S = "length (sweep_functions s)"
  let ?s4 = "after_values s"
  let ?n = "length (rows (dset s))"
  note t4 = after_values_table[OF ok cols tbl]
  note st = measure_hard_step[OF m ok r cols tbl dv]
  have g: "get_sweep_points s' = get_sweep_points s"
    using st(8) by (rule get_sweep_points_config)
  from measure_hard_cases[OF m ok r cols dv] obtain P d' where
    P: "get_sweep_points s = Inr P"
    and s': "s' = ?s4\<lparr>dset := d'\<rparr>"
    and w: "(len_T P = r \<and> write_full_sweep P (dset ?s4) = Some d')
       \<or> (len_T P \<noteq> r \<and> (mode s = ''2D'' \<and> mode_interned s)
           \<and> write_window_sweep (length (rows (dset s))) r ?S P (dset ?s4) = Some d')
       \<or> (len_T P \<noteq> r \<and> \<not> (mode s = ''2D'' \<and> mode_interned s) \<and> d' = dset ?s4)"
    by blast
  have "take ?n (rows (dset s')) = rows (dset s) \<and> sweep_column_written r s'"
  proof (cases "len_T P = r")
    case False
    then have "take ?n (rows (dset s')) = rows (dset s)" using st(9) P by blast
    moreover have "sweep_column_written r s'"
      using False P g by (simp add: sweep_column_written_def)
    ultimately show ?thesis by blast
  next
    case True
    with w have "write_full_sweep P (dset ?s4) = Some d'" by blast
    from write_full_sweep_eq[OF this] t4(3) obtain vs' where
      vs': "h5_assign1 (?n + r) (first_column P) = Some vs'"
      and d': "d' = (dset ?s4)\<lparr>rows := put_block 0 0 (map (\<lambda>x. [x]) vs') (rows (dset ?s4))\<rparr>"
      by auto
    have lv: "length vs' = ?n + r" using vs' by (rule h5_assign1_length)
    have fit: "0 + length (map (\<lambda>x. [x]) vs') \<le> length (rows (dset ?s4))"
      using lv t4(3) by simp
    have len': "length (rows (dset s')) = ?n + r" using st(4) .
    have row: "rows (dset s') ! i = vs' ! i # drop 1 (rows (dset ?s4) ! i)" if "i < ?n + r" for i
    proof -
      have i4: "i < length (rows (dset ?s4))" using that t4(3) by simp
      have "rows (dset s') ! i = put_block 0 0 (map (\<lambda>x. [x]) vs') (rows (dset ?s4)) ! i"
        by (simp add: s' d')
      also have "\<dots> = put_cells 0 (map (\<lambda>x. [x]) vs' ! i) (rows (dset ?s4) ! i)"
        using that lv by (simp add: nth_put_block[OF fit i4])
      also have "\<dots> = vs' ! i # drop 1 (rows (dset ?s4) ! i)"
        using that lv by (simp add: put_cells_def)
      finally show ?thesis .
    qed
    have written: "sweep_column_written r s'"
      unfolding sweep_column_written_def
    proof (intro allI impI)
      fix Q
      assume "get_sweep_points s' = Inr Q \<and> len_T Q = r \<and> rows (dset s') \<noteq> []"
      then have Q: "Q = P" using g P by simp
      have c: "\<forall>i < length (rows (dset s')). take 1 (rows (dset s') ! i) = [vs' ! i]"
        using row len' by simp
      have h: "h5_assign1 (length (rows (dset s'))) (first_column Q) = Some vs'"
        using vs' len' Q by simp
      show "\<exists>vs. h5_assign1 (length (rows (dset s'))) (first_column Q) = Some vs
            \<and> (\<forall>i < length (rows (dset s')). take 1 (rows (dset s') ! i) = [vs ! i])"
        using h c by (intro exI[of _ vs'] conjI)
    qed
    have keep: "take ?n (rows (dset s')) = rows (dset s)"
    proof (cases "?n = 0")
      case True
      then show ?thesis by simp
    next
      case False
      then have ne: "rows (dset s) \<noteq> []" by simp
      with J P True obtain vs where
        vs: "h5_assign1 ?n (first_column P) = Some vs"
        and col: "\<forall>i < ?n. take 1 (rows (dset s) ! i) = [vs ! i]"
        unfolding sweep_column_written_def by blast
      from False have n: "0 < ?n" by simp
      have tk: "take ?n vs' = vs" by (rule h5_assign1_again[OF vs vs' n r])
      show ?thesis
      proof (rule nth_equalityI)
        show "length (take ?n (rows (dset s'))) = length (rows (dset s))" using len' by simp
      next
        fix i
        assume "i < length (take ?n (rows (dset s')))"
        then have i: "i < ?n" by simp
        have old: "rows (dset ?s4) ! i = rows (dset s) ! i"
        proof -
          have "take ?n (rows (dset ?s4)) ! i = rows (dset ?s4) ! i" using i by simp
          then show ?thesis using t4(5) by simp
        qed
        have v: "vs' ! i = vs ! i"
        proof -
          have "take ?n vs' ! i = vs' ! i" using i by simp
          then show ?thesis using tk by simp
        qed
        have "take ?n (rows (dset s')) ! i = rows (dset s') ! i" using i by simp
        also have "\<dots> = vs' ! i # drop 1 (rows (dset ?s4) ! i)" using row[of i] i by simp
        also have "\<dots> = [vs ! i] @ drop 1 (rows (dset s) ! i)" using old v by simp
        also have "\<dots> = take 1 (rows (dset s) ! i) @ drop 1 (rows (dset s) ! i)"
          using col i by simp
        also have "\<dots> = rows (dset s) ! i" by (rule append_take_drop_id)
        finally show "take ?n (rows (dset s')) ! i = rows (dset s) ! i" .
      qed
    qed
    from keep written show ?thesis by blast
  qed
  then show "take ?n (rows (dset s')) = rows (dset s)" and "sweep_column_written r s'"
    by blast+
qed


lemma measure_hard_times_Suc:
  assumes "measure_hard_times (Suc k) s = (Inr bs, s')"
  obtains b s1 bs' where "measure_hard s = (Inr b, s1)"
    and "measure_hard_times k s1 = (Inr bs', s')" and "bs = b # bs'"
  using assms by (auto split: prod.splits sum.splits)

lemma measure_hard_times_run:
  assumes "measure_hard_times k s = (Inr bs, s')"
    and "\<forall>ev. block_ok r V (get_values (detector_function s) ev)" and "0 < r"
    and "ncols (dset s) = length (sweep_functions s) + V" and "table_ok (dset s)"
    and "sweep_column_written r s" and "r dvd length (rows (dset s))"
  shows "length bs = k
       \<and> length (rows (dset s')) = length (rows (dset s)) + k * r
       \<and> ncols (dset s') = ncols (dset s) \<and> table_ok (dset s')
       \<and> map (drop (length (sweep_functions s))) (rows (dset s'))
           = map (drop (length (sweep_functions s))) (rows (dset s)) @ concat (map block_rows bs)
       \<and> same_config s s'
       \<and> take (length (rows (dset s))) (rows (dset s')) = rows (dset s)
       \<and> sweep_column_written r s'
       \<and> (\<forall>b \<in> set bs. block_ok r V b)"
  using assms
proof (induction k arbitrary: s bs)
  case 0
  then show ?case by (simp add: same_config_refl)
next
  case (Suc k)
  from Suc.prems(1) obtain b s1 bs' where
    m: "measure_hard s = (Inr b, s1)"
    and rest: "measure_hard_times k s1 = (Inr bs', s')" and bs: "bs = b # bs'"
    by (rule measure_hard_times_Suc)
  have ok: "block_ok r V (get_values (detector_function s) (events s))"
    using Suc.prems(2) by blast
  note st = measure_hard_step[OF m ok Suc.prems(3,4,5,7)]
  note kp = measure_hard_keeps_rows[OF m ok Suc.prems(3,4,5,7,6)]
  have dv1: "r dvd length (rows (dset s1))" using st(4) Suc.prems(7) by simp
  have b: "block_ok r V b" using st(1) ok by simp
  have sf: "sweep_functions s1 = sweep_functions s" "detector_function s1 = detector_function s"
    using st(8) by (simp_all add: same_config_def)
  have p2: "\<forall>ev. block_ok r V (get_values (detector_function s1) ev)"
    using Suc.prems(2) sf(2) by simp
  have p4: "ncols (dset s1) = length (sweep_functions s1) + V"
    using st(5) Suc.prems(4) sf(1) by simp
  note ih = Suc.IH[OF rest p2 Suc.prems(3) p4 st(6) kp(2) dv1]
  have "length bs = Suc k" using ih bs by simp
  moreover have "length (rows (dset s')) = length (rows (dset s)) + Suc k * r"
    using ih st(4) by simp
  moreover have "ncols (dset s') = ncols (dset s)" using ih st(5) by simp
  moreover have "table_ok (dset s')" using ih by simp
  moreover have "map (drop (length (sweep_functions s))) (rows (dset s'))
           = map (drop (length (sweep_functions s))) (rows (dset s)) @ concat (map block_rows bs)"
    using ih st(7) sf(1) bs by simp
  moreover have "same_config s s'" using ih st(8) same_config_trans by blast
  moreover have "take (length (rows (dset s))) (rows (dset s')) = rows (dset s)"
  proof -
    have "take (length (rows (dset s))) (rows (dset s'))
        = take (length (rows (dset s))) (take (length (rows (dset s1))) (rows (dset s')))"
      using st(4) by (simp add: min_def)
    also have "\<dots> = take (length (rows (dset s))) (rows (dset s1))" using ih by simp
    also have "\<dots> = rows (dset s)" by (rule kp(1))
    finally show ?thesis .
  qed
  moreover have "sweep_column_written r s'" using ih by simp
  moreover have "\<forall>b \<in> set bs. block_ok r V b" using ih b bs by simp
  ultimately show ?case by blast
qed

lemma measure_hard_times_split:
  assumes "measure_hard_times k s = (Inr bs, s')" and "j < k"
  shows "\<exists>t u. measure_hard_times j s = (Inr (take j bs), t)
             \<and> measure_hard t = (Inr (bs ! j), u)
             \<and> measure_hard_times (k - Suc j) u = (Inr (drop (Suc j) bs), s')"
  using assms
proof (induction j arbitrary: k s bs)
  case 0
  then obtain k' where k: "k = Suc k'" by (cases k) auto
  from 0(1)[unfolded k] obtain b s1 bs' where
    "measure_hard s = (Inr b, s1)" "measure_hard_times k' s1 = (Inr bs', s')" "bs = b # bs'"
    by (rule measure_hard_times_Suc)
  then show ?case using k by simp
next
  case (Suc j)
  then obtain k' where k: "k = Suc k'" and j: "j < k'" by (cases k) auto
  from Suc.prems(1)[unfolded k] obtain b s1 bs' where
    m: "measure_hard s = (Inr b, s1)" and rest: "measure_hard_times k' s1 = (Inr bs', s')"
    and bs: "bs = b # bs'"
    by (rule measure_hard_times_Suc)
  from Suc.IH[OF rest j] obtain t u where
    t: "measure_hard_times j s1 = (Inr (take j bs'), t)"
    and u: "measure_hard t = (Inr (bs' ! j), u)"
    and e: "measure_hard_times (k' - Suc j) u = (Inr (drop (Suc j) bs'), s')"
    by blast
  have "measure_hard_times (Suc j) s = (Inr (take (Suc j) bs), t)"
    using m t bs by simp
  moreover have "measure_hard t = (Inr (bs ! Suc j), u)" using u bs by simp
  moreover have "measure_hard_times (k - Suc (Suc j)) u = (Inr (drop (Suc (Suc j)) bs), s')"
    using e bs k by simp
  ultimately show ?case by blast
qed

subsection \<open>Growth of the table under hard blocks\<close>

text \<open>
  C2. \<open>k\<close> consecutive blocks of \<open>r\<close> rows each (a detector of \<open>V\<close> channels), read by \<open>k\<close>
  calls of \<^verbatim>\<open>measure_hard\<close> into a table that starts empty. For block \<open>i\<close> (from 1 to \<open>k\<close>),
  with \<open>t\<close> the engine before the block and \<open>u\<close> the engine after it: the chunk number is
  the row count of \<open>t\<close> divided by \<open>r\<close>, plus 1, which is \<open>i\<close>; the table of \<open>u\<close> has \<open>r\<close>
  times the chunk number rows; the rows of \<open>t\<close> are the first rows of \<open>u\<close>, unchanged; the
  value cells of the rows from \<open>(i - 1) * r\<close> on are the rows of block \<open>i\<close>; and the rows of
  \<open>u\<close> are still the first \<open>i * r\<close> rows at the end. After all \<open>k\<close> blocks the table has
  exactly \<open>k * r\<close> rows, and its value cells are the rows of the blocks one after the
  other, each block with \<open>r\<close> rows.
\<close>

theorem hard_blocks_growth:
  assumes run: "measure_hard_times k s = (Inr bs, s')"
    and empty: "rows (dset s) = []"
    and cols: "ncols (dset s) = length (sweep_functions s) + V"
    and blocks: "\<forall>ev. block_ok r V (get_values (detector_function s) ev)"
    and r: "0 < r"
    and i: "0 < i" "i \<le> k"
  shows "\<exists>t u. measure_hard_times (i - 1) s = (Inr (take (i - 1) bs), t)
           \<and> measure_hard t = (Inr (bs ! (i - 1)), u)
           \<and> measure_hard_times (k - i) u = (Inr (drop i bs), s')
           \<and> length (rows (dset t)) = (i - 1) * r
           \<and> iteration u = of_nat (length (rows (dset t))) / of_nat r + 1
           \<and> iteration u = of_nat i
           \<and> of_nat (length (rows (dset u))) = of_nat r * iteration u
           \<and> take ((i - 1) * r) (rows (dset u)) = rows (dset t)
           \<and> map (drop (length (sweep_functions s))) (drop ((i - 1) * r) (rows (dset u)))
               = block_rows (bs ! (i - 1))
           \<and> take (i * r) (rows (dset s')) = rows (dset u)
           \<and> (\<forall>l < r. drop (length (sweep_functions s)) (rows (dset s') ! ((i - 1) * r + l))
                  = block_rows (bs ! (i - 1)) ! l)
           \<and> length bs = k
           \<and> length (rows (dset s')) = k * r
           \<and> map (drop (length (sweep_functions s))) (rows (dset s')) = concat (map block_rows bs)
           \<and> (\<forall>b \<in> set bs. length (block_rows b) = r)"
proof -
  let ?S = "length (sweep_functions s)"
  from i obtain j where j: "i = Suc j" "j < k" by (cases i) auto
  from measure_hard_times_split[OF run j(2)] obtain t u where
    t: "measure_hard_times j s = (Inr (take j bs), t)"
    and u: "measure_hard t = (Inr (bs ! j), u)"
    and e: "measure_hard_times (k - Suc j) u = (Inr (drop (Suc j) bs), s')"
    by blast
  have tbl: "table_ok (dset s)" using empty by (simp add: table_ok_def)
  have wr: "sweep_column_written r s" using empty by (simp add: sweep_column_written_def)
  have dv: "r dvd length (rows (dset s))" using empty by simp
  note all = measure_hard_times_run[OF run blocks r cols tbl wr dv]
  note bt = measure_hard_times_run[OF t blocks r cols tbl wr dv]
  have sft: "sweep_functions t = sweep_functions s" "detector_function t = detector_function s"
    using bt by (simp_all add: same_config_def)
  have okt: "block_ok r V (get_values (detector_function t) (events t))"
    using blocks sft(2) by simp
  have colt: "ncols (dset t) = length (sweep_functions t) + V" using bt cols sft(1) by simp
  have tblt: "table_ok (dset t)" and wrt: "sweep_column_written r t" using bt by simp_all
  have dvt: "r dvd length (rows (dset t))" using bt dv by simp
  note st = measure_hard_step[OF u okt r colt tblt dvt]
  note kp = measure_hard_keeps_rows[OF u okt r colt tblt dvt wrt]
  have sfu: "sweep_functions u = sweep_functions s" "detector_function u = detector_function s"
    using st(8) sft by (simp_all add: same_config_def)
  have blu: "\<forall>ev. block_ok r V (get_values (detector_function u) ev)"
    using blocks sfu(2) by simp
  have colu: "ncols (dset u) = length (sweep_functions u) + V"
    using st(5) colt sft(1) sfu(1) by simp
  have dvu: "r dvd length (rows (dset u))" using st(4) dvt by simp
  note ue = measure_hard_times_run[OF e blu r colu st(6) kp(2) dvu]
  have lt: "length (rows (dset t)) = j * r" using bt empty by simp
  have lu: "length (rows (dset u)) = Suc j * r" using st(4) lt by simp
  have it: "iteration u = of_nat (length (rows (dset t))) / of_nat r + 1" by (rule st(3))
  have iti: "iteration u = of_nat (Suc j)" using it lt r by simp
  have rz: "of_nat (length (rows (dset u))) = of_nat r * iteration u"
    using lu iti by (simp add: algebra_simps)
  have keep: "take (j * r) (rows (dset u)) = rows (dset t)" using kp(1) lt by simp
  have vals: "map (drop ?S) (drop (j * r) (rows (dset u))) = block_rows (bs ! j)"
  proof -
    have "map (drop ?S) (rows (dset u))
        = map (drop ?S) (rows (dset t)) @ block_rows (bs ! j)"
      using st(7) sft(1) by simp
    then have "drop (j * r) (map (drop ?S) (rows (dset u)))
        = drop (j * r) (map (drop ?S) (rows (dset t)) @ block_rows (bs ! j))" by simp
    then show ?thesis using lt by (simp add: drop_map)
  qed
  have fin: "take (Suc j * r) (rows (dset s')) = rows (dset u)" using ue lu by simp
  have place: "\<forall>l < r. drop ?S (rows (dset s') ! (j * r + l)) = block_rows (bs ! j) ! l"
  proof (intro allI impI)
    fix l
    assume l: "l < r"
    then have lt': "j * r + l < Suc j * r" by simp
    have "rows (dset s') ! (j * r + l) = take (Suc j * r) (rows (dset s')) ! (j * r + l)"
      using lt' by simp
    also have "\<dots> = rows (dset u) ! (j * r + l)" using fin by simp
    also have "\<dots> = drop (j * r) (rows (dset u)) ! l" using lu lt' by simp
    finally have "drop ?S (rows (dset s') ! (j * r + l))
        = drop ?S (drop (j * r) (rows (dset u)) ! l)" by simp
    also have "\<dots> = map (drop ?S) (drop (j * r) (rows (dset u))) ! l"
      using lu l by simp
    also have "\<dots> = block_rows (bs ! j) ! l" using vals by simp
    finally show "drop ?S (rows (dset s') ! (j * r + l)) = block_rows (bs ! j) ! l" .
  qed
  have len: "length bs = k" and lens: "length (rows (dset s')) = k * r"
    and cat: "map (drop ?S) (rows (dset s')) = concat (map block_rows bs)"
    using all empty by simp_all
  have each: "\<forall>b \<in> set bs. length (block_rows b) = r"
    using all block_rows_shape(2) by blast
  have e': "measure_hard_times (k - i) u = (Inr (drop i bs), s')" using e j(1) by simp
  show ?thesis
    using t u e' lt it iti rz keep vals fin place len lens cat each
    unfolding j(1) diff_Suc_1
    by (intro exI[of _ t] exI[of _ u] conjI)
qed


lemmas hard_eval = measure_hard_def notify_def Let_def hard_engine_def example_engine_def
  block_detector_def create_experimentaldata_dataset_def resize_def h5_assign1_def
  put_block_def put_cells_def get_sweep_points_def hard_plot_and_return_def fl_whole

lemma hard_example_run:
  "measure_hard_times 3 hard_engine
     = (Inr [Block1 [7, 8], Block1 [9, 10], Block1 [11, 12]],
        snd (measure_hard_times 3 hard_engine))
   \<and> rows (dset (snd (measure_hard_times 3 hard_engine)))
       = [[0, 7], [0, 8], [0, 9], [0, 10], [0, 11], [0, 12]]"
  by (simp add: eval_nat_numeral hard_eval)

theorem hard_blocks_growth_witness:
  "measure_hard_times 3 hard_engine
     = (Inr [Block1 [7, 8], Block1 [9, 10], Block1 [11, 12]],
        snd (measure_hard_times 3 hard_engine))
   \<and> rows (dset hard_engine) = []
   \<and> ncols (dset hard_engine) = length (sweep_functions hard_engine) + 1
   \<and> (\<forall>ev. block_ok 2 1 (get_values (detector_function hard_engine) ev))
   \<and> length (rows (dset (snd (measure_hard_times 3 hard_engine)))) = 3 * 2
   \<and> drop (length (sweep_functions hard_engine))
         (rows (dset (snd (measure_hard_times 3 hard_engine))) ! 2) = [9]
   \<and> drop (length (sweep_functions hard_engine))
         (rows (dset (snd (measure_hard_times 3 hard_engine))) ! 3) = [10]"
proof -
  have run: "measure_hard_times 3 hard_engine
     = (Inr [Block1 [7, 8], Block1 [9, 10], Block1 [11, 12]],
        snd (measure_hard_times 3 hard_engine))"
    using hard_example_run by blast
  have empty: "rows (dset hard_engine) = []"
    and cols: "ncols (dset hard_engine) = length (sweep_functions hard_engine) + 1"
    by (simp_all add: hard_engine_def example_engine_def block_detector_def
          create_experimentaldata_dataset_def)
  have blocks: "\<forall>ev. block_ok 2 1 (get_values (detector_function hard_engine) ev)"
    by (simp add: hard_engine_def example_engine_def block_detector_def
          create_experimentaldata_dataset_def split: nat.splits)
  have r: "0 < (2 :: nat)" and i: "0 < (2 :: nat)" "(2 :: nat) \<le> 3" by simp_all
  from hard_blocks_growth[OF run empty cols blocks r i]
  have len: "length (rows (dset (snd (measure_hard_times 3 hard_engine)))) = 3 * 2"
    and place: "\<forall>l < 2. drop (length (sweep_functions hard_engine))
                 (rows (dset (snd (measure_hard_times 3 hard_engine))) ! ((2 - 1) * 2 + l))
              = block_rows ([Block1 [7, 8], Block1 [9, 10], Block1 [11, 12]] ! (2 - 1)) ! l"
    by blast+
  have "(0 :: nat) < 2" by simp
  from place[rule_format, OF this]
  have p0: "drop (length (sweep_functions hard_engine))
         (rows (dset (snd (measure_hard_times 3 hard_engine))) ! 2) = [9]"
    by simp
  have "(1 :: nat) < 2" by simp
  from place[rule_format, OF this]
  have p1: "drop (length (sweep_functions hard_engine))
         (rows (dset (snd (measure_hard_times 3 hard_engine))) ! 3) = [10]"
    by (simp add: eval_nat_numeral)
  from run empty cols blocks len p0 p1 show ?thesis by blast
qed

subsection \<open>The sweep columns after a block\<close>

lemma write_window_sweep_eq:
  assumes "write_window_sweep start r S P d = Some d'"
  shows "\<exists>blk. h5_assign2 (length (rows d) - start) (min S (ncols d)) (window start r P) = Some blk
             \<and> d' = d\<lparr>rows := put_block start 0 blk (rows d)\<rparr>"
  using assms by (cases P) (auto split: option.splits)

lemma put_cells_front: "length p = S \<Longrightarrow> put_cells 0 p (replicate S 0 @ vs) = p @ vs"
  by (simp add: put_cells_def)

lemma rows_after_values:
  "rows (dset (after_values s))
     = rows (dset s) @ map (\<lambda>vs. replicate (length (sweep_functions s)) 0 @ vs)
                          (block_rows (get_values (detector_function s) (events s)))"
  by (simp add: after_values_def Let_def)

text \<open>
  C6, as the code has it. A call of \<^verbatim>\<open>measure_hard\<close> that returns has read a block \<open>b\<close> of
  \<open>r\<close> rows into a table of \<open>n\<close> rows, with \<open>S\<close> sweep functions and the sweep points \<open>P\<close>;
  \<open>n\<close> is a multiple of \<open>r\<close>, as in a table that blocks of \<open>r\<close> rows have filled, so that the
  chunk arithmetic is exact. When the length the code takes of \<open>P\<close> is \<open>r\<close>, the first
  column of all \<open>n + r\<close> rows is assigned the point set (a point set of one point is
  repeated), and the other cells are those of the old rows and of the block; on an empty
  table a one-dimensional point set of \<open>r\<close> points is the first column. When the length
  is not \<open>r\<close> and the mode is the string object \<^verbatim>\<open>'2D'\<close>, the sweep cells of the \<open>r\<close> fresh
  rows are assigned the window \<open>[n, n + r)\<close> of the point set. When the length is not \<open>r\<close>
  and the mode is not that object, so in every run of mode \<^verbatim>\<open>'1D'\<close>, nothing is written to
  the sweep columns: the sweep cells of the fresh rows keep the fill value 0.
\<close>

theorem sweep_columns_after_block:
  assumes m: "measure_hard s = (Inr b, s')"
    and ok: "block_ok r V (get_values (detector_function s) (events s))" and r: "0 < r"
    and cols: "ncols (dset s) = length (sweep_functions s) + V"
    and tbl: "table_ok (dset s)"
    and dv: "r dvd length (rows (dset s))"
    and P: "get_sweep_points s = Inr P"
  shows "(len_T P = r \<longrightarrow>
            (\<exists>vs. h5_assign1 (length (rows (dset s)) + r) (first_column P) = Some vs
               \<and> (\<forall>i < length (rows (dset s)) + r.
                     rows (dset s') ! i
                       = vs ! i # drop 1 ((rows (dset s)
                            @ map (\<lambda>vs. replicate (length (sweep_functions s)) 0 @ vs)
                                (block_rows b)) ! i))))
       \<and> (\<forall>xs. P = Pts1 xs \<and> length xs = r \<and> rows (dset s) = []
            \<longrightarrow> map hd (rows (dset s')) = xs)
       \<and> (len_T P \<noteq> r \<and> (mode s = ''2D'' \<and> mode_interned s) \<longrightarrow>
            (\<exists>blk. h5_assign2 r (length (sweep_functions s))
                      (window (length (rows (dset s))) r P) = Some blk
               \<and> rows (dset s')
                   = rows (dset s) @ map (\<lambda>(p, vs). p @ vs) (zip blk (block_rows b))))
       \<and> (len_T P \<noteq> r \<and> \<not> (mode s = ''2D'' \<and> mode_interned s) \<longrightarrow>
            rows (dset s')
              = rows (dset s) @ map (\<lambda>vs. replicate (length (sweep_functions s)) 0 @ vs)
                                   (block_rows b))"
proof -
  let ?S = "length (sweep_functions s)"
  let ?s4 = "after_values s"
  let ?n = "length (rows (dset s))"
  let ?Z = "map (\<lambda>vs. replicate ?S 0 @ vs) (block_rows b)"
  note t4 = after_values_table[OF ok cols tbl]
  note sh = block_rows_shape[OF ok]
  from measure_hard_cases[OF m ok r cols dv] P obtain d' where
    b: "b = get_values (detector_function s) (events s)"
    and s': "s' = ?s4\<lparr>dset := d'\<rparr>"
    and w: "(len_T P = r \<and> write_full_sweep P (dset ?s4) = Some d')
       \<or> (len_T P \<noteq> r \<and> (mode s = ''2D'' \<and> mode_interned s)
           \<and> write_window_sweep ?n r ?S P (dset ?s4) = Some d')
       \<or> (len_T P \<noteq> r \<and> \<not> (mode s = ''2D'' \<and> mode_interned s) \<and> d' = dset ?s4)"
    by auto
  have r4: "rows (dset ?s4) = rows (dset s) @ ?Z" using rows_after_values[of s] b by simp
  have lz: "length (block_rows b) = r" using sh(2) b by simp
  have full: "\<exists>vs. h5_assign1 (?n + r) (first_column P) = Some vs
               \<and> (\<forall>i < ?n + r. rows (dset s') ! i = vs ! i # drop 1 ((rows (dset s) @ ?Z) ! i))"
    if f: "len_T P = r"
  proof -
    from f w have "write_full_sweep P (dset ?s4) = Some d'" by blast
    from write_full_sweep_eq[OF this] t4(3) obtain vs where
      vs: "h5_assign1 (?n + r) (first_column P) = Some vs"
      and d': "d' = (dset ?s4)\<lparr>rows := put_block 0 0 (map (\<lambda>x. [x]) vs) (rows (dset ?s4))\<rparr>"
      by auto
    have lv: "length vs = ?n + r" using vs by (rule h5_assign1_length)
    have fit: "0 + length (map (\<lambda>x. [x]) vs) \<le> length (rows (dset ?s4))"
      using lv t4(3) by simp
    have "rows (dset s') ! i = vs ! i # drop 1 ((rows (dset s) @ ?Z) ! i)" if "i < ?n + r" for i
    proof -
      have i4: "i < length (rows (dset ?s4))" using that t4(3) by simp
      have "rows (dset s') ! i = put_block 0 0 (map (\<lambda>x. [x]) vs) (rows (dset ?s4)) ! i"
        by (simp add: s' d')
      also have "\<dots> = put_cells 0 (map (\<lambda>x. [x]) vs ! i) (rows (dset ?s4) ! i)"
        using that lv by (simp add: nth_put_block[OF fit i4])
      also have "\<dots> = vs ! i # drop 1 (rows (dset ?s4) ! i)"
        using that lv by (simp add: put_cells_def)
      finally show ?thesis using r4 by simp
    qed
    with vs show ?thesis by blast
  qed
  have first: "map hd (rows (dset s')) = xs"
    if x: "P = Pts1 xs \<and> length xs = r \<and> rows (dset s) = []" for xs
  proof -
    from x have "len_T P = r" by simp
    from full[OF this] x obtain vs where
      vs: "h5_assign1 r xs = Some vs"
      and row: "\<forall>i < r. rows (dset s') ! i = vs ! i # drop 1 (?Z ! i)"
      by auto
    from vs x have e: "vs = xs" by (simp add: h5_assign1_def)
    have len: "length (rows (dset s')) = r"
      using measure_hard_step(4)[OF m ok r cols tbl dv] x by simp
    show ?thesis
      using row len e x by (intro nth_equalityI) simp_all
  qed
  have win: "\<exists>blk. h5_assign2 r ?S (window ?n r P) = Some blk
               \<and> rows (dset s') = rows (dset s) @ map (\<lambda>(p, vs). p @ vs) (zip blk (block_rows b))"
    if f: "len_T P \<noteq> r \<and> (mode s = ''2D'' \<and> mode_interned s)"
  proof -
    from f w have "write_window_sweep ?n r ?S P (dset ?s4) = Some d'" by blast
    from write_window_sweep_eq[OF this] t4(2,3) cols obtain blk where
      blk: "h5_assign2 r ?S (window ?n r P) = Some blk"
      and d': "d' = (dset ?s4)\<lparr>rows := put_block ?n 0 blk (rows (dset ?s4))\<rparr>"
      by auto
    from h5_assign2_shape[OF blk] have lb: "length blk = r"
      and wb: "\<forall>row \<in> set blk. length row = ?S" by simp_all
    have "map (\<lambda>(p, row). put_cells 0 p row) (zip blk ?Z)
        = map (\<lambda>(p, vs). p @ vs) (zip blk (block_rows b))"
    proof (rule nth_equalityI)
      show "length (map (\<lambda>(p, row). put_cells 0 p row) (zip blk ?Z))
          = length (map (\<lambda>(p, vs). p @ vs) (zip blk (block_rows b)))" by simp
    next
      fix i
      assume "i < length (map (\<lambda>(p, row). put_cells 0 p row) (zip blk ?Z))"
      then have i: "i < r" using lb lz by simp
      then have "blk ! i \<in> set blk" using lb by simp
      with wb have "length (blk ! i) = ?S" by blast
      then show "map (\<lambda>(p, row). put_cells 0 p row) (zip blk ?Z) ! i
          = map (\<lambda>(p, vs). p @ vs) (zip blk (block_rows b)) ! i"
        using i lb lz by (simp add: put_cells_front)
    qed
    moreover have "put_block ?n 0 blk (rows (dset s) @ ?Z)
        = rows (dset s) @ map (\<lambda>(p, row). put_cells 0 p row) (zip blk ?Z)"
      using lb lz by (simp add: put_block_append)
    ultimately have "rows (dset s')
        = rows (dset s) @ map (\<lambda>(p, vs). p @ vs) (zip blk (block_rows b))"
      by (simp add: s' d' r4)
    with blk show ?thesis by blast
  qed
  have none: "rows (dset s') = rows (dset s) @ ?Z" if f: "len_T P \<noteq> r \<and> \<not> (mode s = ''2D'' \<and> mode_interned s)"
  proof -
    from f w have "d' = dset ?s4" by blast
    then show ?thesis using r4 by (simp add: s')
  qed
  from full first win none show ?thesis by blast
qed


theorem sweep_columns_after_block_witness:
  "measure_hard hard_engine = (Inr (Block1 [7, 8]), snd (measure_hard hard_engine))
   \<and> block_ok 2 1 (get_values (detector_function hard_engine) (events hard_engine))
   \<and> ncols (dset hard_engine) = length (sweep_functions hard_engine) + 1
   \<and> table_ok (dset hard_engine)
   \<and> get_sweep_points hard_engine = Inr (Pts1 [1, 2, 3, 4, 5, 6])
   \<and> mode hard_engine \<noteq> ''2D''
   \<and> rows (dset (snd (measure_hard hard_engine))) = [[0, 7], [0, 8]]
   \<and> measure_hard full_engine = (Inr (Block1 [7, 8]), snd (measure_hard full_engine))
   \<and> get_sweep_points full_engine = Inr (Pts1 [1, 2])
   \<and> map hd (rows (dset (snd (measure_hard full_engine)))) = [1, 2]
   \<and> measure_hard window_engine = (Inr (Block1 [7, 8, 9]), snd (measure_hard window_engine))
   \<and> mode window_engine = ''2D'' \<and> mode_interned window_engine
   \<and> rows (dset (snd (measure_hard window_engine))) = [[1, 10, 7], [2, 10, 8], [3, 10, 9]]
   \<and> measure_hard (window_engine\<lparr>mode_interned := False\<rparr>)
       = (Inr (Block1 [7, 8, 9]), snd (measure_hard (window_engine\<lparr>mode_interned := False\<rparr>)))
   \<and> rows (dset (snd (measure_hard (window_engine\<lparr>mode_interned := False\<rparr>))))
       = [[0, 0, 7], [0, 0, 8], [0, 0, 9]]"
proof -
  note ex = hard_engine_def full_engine_def window_engine_def example_engine_def
    block_detector_def wide_detector_def create_experimentaldata_dataset_def
  have m1: "measure_hard hard_engine = (Inr (Block1 [7, 8]), snd (measure_hard hard_engine))"
    by (simp add: eval_nat_numeral hard_eval)
  have ok1: "block_ok 2 1 (get_values (detector_function hard_engine) (events hard_engine))"
    and c1: "ncols (dset hard_engine) = length (sweep_functions hard_engine) + 1"
    and t1: "table_ok (dset hard_engine)"
    and p1: "get_sweep_points hard_engine = Inr (Pts1 [1, 2, 3, 4, 5, 6])"
    and md1: "mode hard_engine \<noteq> ''2D''"
    and d1: "2 dvd length (rows (dset hard_engine))"
    by (simp_all add: ex table_ok_def get_sweep_points_def)
  have r2: "0 < (2 :: nat)" by simp
  have l1: "len_T (Pts1 [1, 2, 3, 4, 5, 6]) \<noteq> 2" by simp
  have rows1: "rows (dset (snd (measure_hard hard_engine))) = [[0, 7], [0, 8]]"
  proof -
    from md1 have "\<not> (mode hard_engine = ''2D'' \<and> mode_interned hard_engine)" by simp
    with sweep_columns_after_block[OF m1 ok1 r2 c1 t1 d1 p1] l1
    have "rows (dset (snd (measure_hard hard_engine)))
        = rows (dset hard_engine)
          @ map (\<lambda>vs. replicate (length (sweep_functions hard_engine)) 0 @ vs)
              (block_rows (Block1 [7, 8]))"
      by blast
    then show ?thesis by (simp add: ex)
  qed
  have m2: "measure_hard full_engine = (Inr (Block1 [7, 8]), snd (measure_hard full_engine))"
    by (simp add: eval_nat_numeral hard_eval full_engine_def)
  have ok2: "block_ok 2 1 (get_values (detector_function full_engine) (events full_engine))"
    and c2: "ncols (dset full_engine) = length (sweep_functions full_engine) + 1"
    and t2: "table_ok (dset full_engine)"
    and p2: "get_sweep_points full_engine = Inr (Pts1 [1, 2])"
    and e2: "rows (dset full_engine) = []"
    and d2: "2 dvd length (rows (dset full_engine))"
    by (simp_all add: ex table_ok_def get_sweep_points_def)
  have first2: "map hd (rows (dset (snd (measure_hard full_engine)))) = [1, 2]"
  proof -
    have "Pts1 [1, 2] = Pts1 [1, 2] \<and> length [1, 2 :: real] = 2 \<and> rows (dset full_engine) = []"
      using e2 by simp
    with sweep_columns_after_block[OF m2 ok2 r2 c2 t2 d2 p2] show ?thesis by blast
  qed
  have m3: "measure_hard window_engine
      = (Inr (Block1 [7, 8, 9]), snd (measure_hard window_engine))"
    by (simp add: eval_nat_numeral hard_eval window_engine_def wide_detector_def
          h5_assign2_def)
  have ok3: "block_ok 3 1 (get_values (detector_function window_engine) (events window_engine))"
    and c3: "ncols (dset window_engine) = length (sweep_functions window_engine) + 1"
    and t3: "table_ok (dset window_engine)"
    and p3: "get_sweep_points window_engine
               = Inr (Pts2 [[1, 10], [2, 10], [3, 10], [1, 20], [2, 20], [3, 20]])"
    and e3: "rows (dset window_engine) = []"
    and md3: "mode window_engine = ''2D''" and mi3: "mode_interned window_engine"
    and s3: "length (sweep_functions window_engine) = 2"
    and d3: "3 dvd length (rows (dset window_engine))"
    by (simp_all add: ex table_ok_def get_sweep_points_def)
  have r3: "0 < (3 :: nat)" by simp
  have l3: "len_T (Pts2 [[1, 10], [2, 10], [3, 10], [1, 20], [2, 20], [3, 20]]) \<noteq> 3" by simp
  have rows3: "rows (dset (snd (measure_hard window_engine)))
      = [[1, 10, 7], [2, 10, 8], [3, 10, 9]]"
  proof -
    from sweep_columns_after_block[OF m3 ok3 r3 c3 t3 d3 p3] l3 md3 mi3 obtain blk where
      blk: "h5_assign2 3 (length (sweep_functions window_engine))
              (window (length (rows (dset window_engine))) 3
                 (Pts2 [[1, 10], [2, 10], [3, 10], [1, 20], [2, 20], [3, 20]])) = Some blk"
      and rw: "rows (dset (snd (measure_hard window_engine)))
              = rows (dset window_engine)
                @ map (\<lambda>(p, vs). p @ vs) (zip blk (block_rows (Block1 [7, 8, 9])))"
      by blast
    have "h5_assign2 3 2 [[1, 10], [2, 10], [3, 10 :: real]] = Some [[1, 10], [2, 10], [3, 10]]"
      by (rule h5_assign2_exact) simp_all
    with blk have "blk = [[1, 10], [2, 10], [3, 10]]" by (simp add: e3 s3)
    with rw show ?thesis by (simp add: e3)
  qed
  let ?w = "window_engine\<lparr>mode_interned := False\<rparr>"
  have m4: "measure_hard ?w = (Inr (Block1 [7, 8, 9]), snd (measure_hard ?w))"
    by (simp add: eval_nat_numeral hard_eval window_engine_def wide_detector_def)
  have ok4: "block_ok 3 1 (get_values (detector_function ?w) (events ?w))"
    and c4: "ncols (dset ?w) = length (sweep_functions ?w) + 1"
    and t4: "table_ok (dset ?w)"
    and p4: "get_sweep_points ?w
               = Inr (Pts2 [[1, 10], [2, 10], [3, 10], [1, 20], [2, 20], [3, 20]])"
    and e4: "rows (dset ?w) = []"
    and mi4: "\<not> (mode ?w = ''2D'' \<and> mode_interned ?w)"
    and s4: "length (sweep_functions ?w) = 2"
    and d4: "3 dvd length (rows (dset ?w))"
    by (simp_all add: ex table_ok_def get_sweep_points_def)
  have rows4: "rows (dset (snd (measure_hard ?w))) = [[0, 0, 7], [0, 0, 8], [0, 0, 9]]"
  proof -
    from sweep_columns_after_block[OF m4 ok4 r3 c4 t4 d4 p4] l3 mi4
    have "rows (dset (snd (measure_hard ?w)))
        = rows (dset ?w)
          @ map (\<lambda>vs. replicate (length (sweep_functions ?w)) 0 @ vs)
              (block_rows (Block1 [7, 8, 9]))"
      by blast
    then show ?thesis using e3 s3 by (simp add: eval_nat_numeral)
  qed
  from m1 ok1 c1 t1 p1 md1 rows1 m2 p2 first2 m3 md3 mi3 rows3 m4 rows4 show ?thesis by blast
qed

text \<open>
  The hard configuration in mode 1D, six sweep points, blocks of two rows: after one
  block, after three blocks and after the whole run the sweep column holds the fill
  value 0, and none of the sweep points.
\<close>

theorem hard_1D_window_counterexample:
  "mode hard_engine = ''1D'' \<and> length (sweep_functions hard_engine) = 1
   \<and> get_sweep_points hard_engine = Inr (Pts1 [1, 2, 3, 4, 5, 6])
   \<and> fst (measure_hard_times 3 hard_engine)
       = Inr [Block1 [7, 8], Block1 [9, 10], Block1 [11, 12]]
   \<and> map hd (rows (dset (snd (measure_hard_times 3 hard_engine)))) = [0, 0, 0, 0, 0, 0]
   \<and> fst (run example_optimizer ''1D'' hard_engine) = Inr [[0, 7], [0, 8]]"
proof -
  have "mode hard_engine = ''1D'' \<and> length (sweep_functions hard_engine) = 1
      \<and> get_sweep_points hard_engine = Inr (Pts1 [1, 2, 3, 4, 5, 6])"
    by (simp add: hard_engine_def example_engine_def create_experimentaldata_dataset_def
          get_sweep_points_def)
  moreover have "fst (measure_hard_times 3 hard_engine)
       = Inr [Block1 [7, 8], Block1 [9, 10], Block1 [11, 12]]"
    using hard_example_run by (metis fst_conv)
  moreover have "map hd (rows (dset (snd (measure_hard_times 3 hard_engine))))
       = [0, 0, 0, 0, 0, 0]"
  proof -
    have "rows (dset (snd (measure_hard_times 3 hard_engine)))
        = [[0, 7], [0, 8], [0, 9], [0, 10], [0, 11], [0, 12]]"
      using hard_example_run by blast
    then show ?thesis by simp
  qed
  moreover have "fst (run example_optimizer ''1D'' hard_engine) = Inr [[0, 7], [0, 8]]"
    by (simp add: run_def measure_mc_def measure_hard_part_def finish_all_def
          eval_nat_numeral hard_eval)
  ultimately show ?thesis by blast
qed

text \<open>
  A table whose row count is not a multiple of the block's: the doubles are inexact.
  With four rows and a block of three the chunk number is the double next to \<open>7/3\<close>,
  \<^verbatim>\<open>start_idx\<close> is 3 and the table is resized to six rows, so that the block overwrites
  the fourth row.
\<close>

lemma unaligned_block:
  "fst (measure_hard unaligned_engine) = Inr (Block1 [7, 8, 9])
   \<and> iteration (snd (measure_hard unaligned_engine)) = 5254199565265578 / 2 ^ 51
   \<and> rows (dset (snd (measure_hard unaligned_engine)))
       = [[0, 1], [0, 2], [0, 3], [0, 7], [0, 8], [0, 9]]"
  by code_simp

subsection \<open>What the acquisition loops leave alone\<close>

lemma same_config_notify:
  "filter is_finish es = [] \<Longrightarrow> same_config s (notify es s)"
  by (simp add: same_config_def finishes_def notify_def)

lemma soft_loop_config:
  "soft_loop ps s = (r, s') \<Longrightarrow> same_config s s'"
proof (induction ps arbitrary: s)
  case Nil
  then show ?case by (simp add: same_config_refl)
next
  case (Cons p ps)
  show ?case
  proof (cases "measurement_function p s")
    case (Pair a s1)
    note c = measurement_function_config[OF Pair]
    show ?thesis
    proof (cases a)
      case (Inl e)
      with Pair Cons.prems c show ?thesis by simp
    next
      case (Inr v)
      with Pair Cons.prems have "soft_loop ps s1 = (r, s')" by simp
      from Cons.IH[OF this] c show ?thesis by (blast intro: same_config_trans)
    qed
  qed
qed

lemma measure_soft_static_config:
  "measure_soft_static s = (r, s') \<Longrightarrow> same_config s s'"
  by (auto simp: measure_soft_static_def same_config_refl
           dest: soft_loop_config split: option.splits)

lemma measure_hard_config:
  assumes "measure_hard s = (r, s')"
  shows "same_config s s'"
  using assms
  by (auto simp: measure_hard_def Let_def notify_def same_config_def finishes_def
                 hard_plot_and_return_def update_plotmon_2D_hard_def
           split: if_splits option.splits sum.splits)

lemma set_outer_config:
  "set_outer js s = (r, s') \<Longrightarrow> same_config s s'"
proof (induction js arbitrary: s)
  case Nil
  then show ?case by (simp add: same_config_refl)
next
  case (Cons i js)
  have n: "same_config s (notify [SetParameter i v] s)" for v
    by (rule same_config_notify) simp
  from Cons.prems consider "s' = s"
    | v where "set_outer js (notify [SetParameter i v] s) = (r, s')"
    | "set_outer js s = (r, s')"
    by (auto split: sum.splits option.splits if_splits)
  then show ?case
  proof cases
    case 1
    then show ?thesis by (simp add: same_config_refl)
  next
    case 2
    from Cons.IH[OF this] n show ?thesis by (blast intro: same_config_trans)
  next
    case 3
    then show ?thesis by (rule Cons.IH)
  qed
qed

lemma hard_2D_loop_config:
  "hard_2D_loop j s = (r, s') \<Longrightarrow> same_config s s'"
proof (induction j arbitrary: s)
  case 0
  then show ?case by (simp add: same_config_refl)
next
  case (Suc j)
  show ?case
  proof (cases "complete s")
    case True
    with Suc.prems have "hard_2D_loop j s = (r, s')" by simp
    then show ?thesis by (rule Suc.IH)
  next
    case False
    show ?thesis
    proof (cases "set_outer [0..<length (sweep_functions s)] s")
      case (Pair a s1)
      note c1 = set_outer_config[OF Pair]
      show ?thesis
      proof (cases a)
        case (Inl e)
        with Pair False Suc.prems c1 show ?thesis by simp
      next
        case (Inr u)
        show ?thesis
        proof (cases "measure_hard s1")
          case m: (Pair b s2)
          note c2 = measure_hard_config[OF m]
          show ?thesis
          proof (cases b)
            case (Inl e)
            with Pair Inr m False Suc.prems have "s' = s2" by simp
            with c1 c2 show ?thesis by (blast intro: same_config_trans)
          next
            case inr: (Inr blk)
            with Pair Inr m False Suc.prems have "hard_2D_loop j s2 = (r, s')" by simp
            from Suc.IH[OF this] c1 c2 show ?thesis by (blast intro: same_config_trans)
          qed
        qed
      qed
    qed
  qed
qed

lemma same_config_from:
  assumes "same_config t s'"
    and "sweep_functions t = sweep_functions s" "detector_function t = detector_function s"
    and "mode t = mode s" "mode_interned t = mode_interned s" "TwoD_array t = TwoD_array s"
    and "mc_sweep_points t = mc_sweep_points s"
    and "sweep_points_2D t = sweep_points_2D s" "xlen t = xlen s" "ylen t = ylen s"
    and "af_pars t = af_pars s" "x_scale t = x_scale s"
    and "minimize_optimization t = minimize_optimization s"
    and "f_termination t = f_termination s" "finishes t = finishes s"
  shows "same_config s s'"
  using assms by (simp add: same_config_def)

lemma measure_hard_part_config:
  assumes "measure_hard_part s = (r, s')"
  shows "same_config s s'"
proof -
  let ?s1 = "s\<lparr>iteration := 0, iteration_is_float := False\<rparr>"
  have c1: "same_config s ?s1" by (simp add: same_config_def finishes_def)
  from assms consider "s' = ?s1"
    | P a where "measure_hard (notify [DetPrepare (Some P)] ?s1) = (a, s')"
    | Px where "s' = (notify [DetPrepare (Some Px)] ?s1)\<lparr>complete := False\<rparr>"
    | Px yl where
        "hard_2D_loop yl ((notify [DetPrepare (Some Px)] ?s1)\<lparr>complete := False\<rparr>) = (r, s')"
    by (auto simp: measure_hard_part_def Let_def
             split: if_splits sum.splits option.splits prod.splits)
  then show ?thesis
  proof cases
    case 1
    with c1 show ?thesis by simp
  next
    case 2
    from measure_hard_config[OF this] show ?thesis
      by (rule same_config_from) (simp_all add: notify_def finishes_def)
  next
    case 3
    then show ?thesis by (simp add: same_config_def notify_def finishes_def)
  next
    case 4
    from hard_2D_loop_config[OF this] show ?thesis
      by (rule same_config_from) (simp_all add: notify_def finishes_def)
  qed
qed

lemma filter_finish_map: "filter is_finish (map Finish js) = map Finish js"
  by (induction js) simp_all

lemma filter_finish_prepare: "filter is_finish (map Prepare js) = []"
  by (induction js) simp_all

lemma finishes_finish_all:
  "finishes (finish_all s)
     = finishes s @ map Finish [0..<length (sweep_functions s)] @ [DetFinish]"
  by (simp add: finish_all_def finishes_notify filter_finish_map)

text \<open>The finish notifications of \<^verbatim>\<open>measure\<close>: all of them when it returns, none when it raises.\<close>

lemma measure_mc_finishes:
  assumes "measure_mc s = (r, s')"
  shows "finishes s'
       = finishes s @ (case r of Inl e \<Rightarrow> []
                       | Inr u \<Rightarrow> map Finish [0..<length (sweep_functions s)] @ [DetFinish])"
proof (cases "sweep_functions s")
  case Nil
  with assms show ?thesis by (auto simp: measure_mc_def)
next
  case (Cons f fs)
  show ?thesis
  proof (cases "sweep_control f \<noteq> detector_control (detector_function s)")
    case True
    with Cons assms show ?thesis by (auto simp: measure_mc_def)
  next
    case False
    let ?s1 = "notify (map Prepare [0..<length (sweep_functions s)]) s"
    let ?inner = "if sweep_control f = ''soft''
                   then measure_soft_static (notify [DetPrepare None] ?s1)
                   else if sweep_control f = ''hard'' then measure_hard_part ?s1
                   else (Inr (), ?s1)"
    obtain a s2 where i: "?inner = (a, s2)" by (cases ?inner) blast
    have c: "same_config s s2"
    proof -
      from i consider "measure_soft_static (notify [DetPrepare None] ?s1) = (a, s2)"
        | "measure_hard_part ?s1 = (a, s2)" | "s2 = ?s1"
        by (auto split: if_splits)
      then show ?thesis
      proof cases
        case 1
        from measure_soft_static_config[OF this] show ?thesis
          by (rule same_config_from)
             (simp_all add: notify_def finishes_def filter_finish_prepare)
      next
        case 2
        from measure_hard_part_config[OF this] show ?thesis
          by (rule same_config_from)
             (simp_all add: notify_def finishes_def filter_finish_prepare)
      next
        case 3
        then show ?thesis
          by (simp add: same_config_def notify_def finishes_def filter_finish_prepare)
      qed
    qed
    have m: "measure_mc s = (case ?inner of (Inl e, s2) \<Rightarrow> (Inl e, s2)
                             | (Inr u, s2) \<Rightarrow> (Inr (), finish_all s2))"
      using Cons False by (simp add: measure_mc_def Let_def)
    show ?thesis
    proof (cases a)
      case (Inl e)
      with m i assms have "r = Inl e" "s' = s2" by simp_all
      with c show ?thesis by (simp add: same_config_def)
    next
      case (Inr u)
      with m i assms have "r = Inr ()" "s' = finish_all s2" by simp_all
      with c show ?thesis by (simp add: same_config_def finishes_finish_all)
    qed
  qed
qed

text \<open>The same for \<^verbatim>\<open>measure_soft_adaptive\<close>.\<close>

lemma measure_soft_adaptive_finishes:
  assumes "measure_soft_adaptive fm s = (r, s')"
  shows "finishes s'
       = finishes s @ (case r of Inl e \<Rightarrow> []
                       | Inr u \<Rightarrow> map Finish [0..<length (sweep_functions s)] @ [DetFinish])"
proof (cases "key_adaptive_function (af_pars s)")
  case None
  with assms show ?thesis by (auto simp: measure_soft_adaptive_def)
next
  case (Some af)
  let ?s2 = "notify (map Prepare [0..<length (sweep_functions s)] @ [DetPrepare None])
               (s\<lparr>af_pars := (af_pars s)\<lparr>key_adaptive_function := None\<rparr>\<rparr>)"
  have s2: "finishes ?s2 = finishes s" "sweep_functions ?s2 = sweep_functions s"
    by (simp_all add: notify_def finishes_def filter_finish_prepare)
  from assms Some consider "r = Inl OptimizerNotRecognized" "s' = ?s2"
    | f a s3 where "call_optimizer (f (key_others (af_pars ?s2))) ?s2 = (a, s3)"
        "(r = Inr () \<and> s' = finish_all s3) \<or> (\<exists>e. r = Inl e \<and> s' = s3)"
    by (auto simp: measure_soft_adaptive_def Let_def
             split: adaptive_function_value.splits if_splits prod.splits sum.splits)
  then show ?thesis
  proof cases
    case 1
    with s2 show ?thesis by simp
  next
    case 2
    from call_optimizer_config[OF 2(1)] s2
    have "finishes s3 = finishes s" "sweep_functions s3 = sweep_functions s"
      unfolding same_config_def by simp_all
    with 2(2) show ?thesis by (auto simp: finishes_finish_all)
  qed
qed

subsection \<open>The finish notifications of a run\<close>

lemma reshape_sweep_points_frame:
  assumes "reshape_sweep_points P s = (r, s1)"
  shows "finishes s1 = finishes s" and "length (sweep_functions s1) = length (sweep_functions s)"
  using assms
  by (auto simp: reshape_sweep_points_def set_sweep_points_def Let_def finishes_def
           split: option.splits sum.splits list.splits)

lemma preallocate_2D_plot_frame:
  assumes "preallocate_2D_plot n m s = (r, s1)"
  shows "finishes s1 = finishes s" and "sweep_functions s1 = sweep_functions s"
  using assms
  by (auto simp: preallocate_2D_plot_def Let_def finishes_def split: if_splits)

text \<open>
  A 2D run measures when the first sweep point has one or two components; with any other
  number of components \<^verbatim>\<open>measure_2D\<close> returns without measuring.
\<close>

lemma measure_2D_finishes:
  assumes "measure_2D s = (r, s')"
  shows "finishes s'
       = finishes s
         @ (case r of Inl e \<Rightarrow> []
            | Inr u \<Rightarrow>
                if \<exists>P. get_sweep_points s = Inr P \<and> (first_size P = Inr 1 \<or> first_size P = Inr 2)
                then map Finish [0..<length (sweep_functions s)] @ [DetFinish] else [])"
proof (cases "get_sweep_points s")
  case (Inl e)
  with assms show ?thesis by (auto simp: measure_2D_def)
next
  case (Inr P)
  show ?thesis
  proof (cases "first_size P")
    case (Inl e)
    with Inr assms show ?thesis by (auto simp: measure_2D_def)
  next
    case sz: (Inr n)
    consider "n = 2" | "n = 1" | "n \<noteq> 1 \<and> n \<noteq> 2" by blast
    then show ?thesis
    proof cases
      case 1
      with Inr sz assms have "measure_mc s = (r, s')" by (simp add: measure_2D_def)
      from measure_mc_finishes[OF this] Inr sz 1 show ?thesis
        by (simp split: sum.splits)
    next
      case 2
      obtain a s1 where rs: "reshape_sweep_points P s = (a, s1)"
        by (cases "reshape_sweep_points P s") blast
      note fr = reshape_sweep_points_frame[OF rs]
      show ?thesis
      proof (cases a)
        case (Inl e)
        with Inr sz 2 rs assms have "r = Inl e" "s' = s1" by (simp_all add: measure_2D_def)
        with fr show ?thesis by simp
      next
        case u: (Inr u)
        show ?thesis
        proof (cases "sweep_points_2D s1")
          case None
          with u Inr sz 2 rs assms have "r = Inl AttributeError" "s' = s1"
            by (simp_all add: measure_2D_def)
          with fr show ?thesis by simp
        next
          case (Some ys)
          obtain b s2 where pa: "preallocate_2D_plot (length ys) (len_pts P) s1 = (b, s2)"
            by (cases "preallocate_2D_plot (length ys) (len_pts P) s1") blast
          note fp = preallocate_2D_plot_frame[OF pa]
          show ?thesis
          proof (cases b)
            case (Inl e)
            with Some u Inr sz 2 rs pa assms have "r = Inl e" "s' = s2"
              by (simp_all add: measure_2D_def)
            with fr fp show ?thesis by simp
          next
            case v: (Inr v)
            with Some u Inr sz 2 rs pa assms have "measure_mc s2 = (r, s')"
              by (simp add: measure_2D_def)
            from measure_mc_finishes[OF this] fr fp Inr sz 2 show ?thesis
              by (simp split: sum.splits)
          qed
        qed
      qed
    next
      case 3
      with Inr sz assms have "r = Inr ()" "s' = s" by (simp_all add: measure_2D_def)
      with Inr sz 3 show ?thesis by simp
    qed
  qed
qed

text \<open>
  C3 as claimed fails. With three hard sweep functions the run raises the configuration
  error when the three are prepared, and with a callable that is not a plain function the
  adaptive run raises the not-recognized error when everything is prepared: in both no
  finish notification is sent.
\<close>

theorem no_finish_on_error_counterexample:
  "fst (run example_optimizer ''1D'' three_hard_engine) = Inl HardNotGeneralized
   \<and> events (snd (run example_optimizer ''1D'' three_hard_engine))
       = [Prepare 0, Prepare 1, Prepare 2]
   \<and> finishes (snd (run example_optimizer ''1D'' three_hard_engine)) = []
   \<and> fst (run example_optimizer ''adaptive'' callable_engine) = Inl OptimizerNotRecognized
   \<and> events (snd (run example_optimizer ''adaptive'' callable_engine))
       = [Prepare 0, DetPrepare None]
   \<and> finishes (snd (run example_optimizer ''adaptive'' callable_engine)) = []"
proof -
  have a1: "fst (run example_optimizer ''1D'' three_hard_engine) = Inl HardNotGeneralized"
    and a2: "events (snd (run example_optimizer ''1D'' three_hard_engine))
       = [Prepare 0, Prepare 1, Prepare 2]"
    by (simp_all add: run_def measure_mc_def measure_hard_part_def three_hard_engine_def
          hard_engine_def example_engine_def block_detector_def
          create_experimentaldata_dataset_def notify_def Let_def eval_nat_numeral)
  have a3: "finishes (snd (run example_optimizer ''1D'' three_hard_engine)) = []"
    by (simp add: finishes_def a2)
  have b1: "fst (run example_optimizer ''adaptive'' callable_engine)
      = Inl OptimizerNotRecognized"
    and b2: "events (snd (run example_optimizer ''adaptive'' callable_engine))
           = [Prepare 0, DetPrepare None]"
    by (simp_all add: run_eval adaptive_examples)
  have b3: "finishes (snd (run example_optimizer ''adaptive'' callable_engine)) = []"
    by (simp add: finishes_def b2)
  from a1 a2 a3 b1 b2 b3 show ?thesis by blast
qed

text \<open>
  C3, amended. A run that returns has sent exactly one finish notification to every
  sweep function and one to the detector, after everything else: so a static soft or hard
  run in mode 1D, an adaptive run (also when the optimizer ends by the stop signal), and a
  2D run whose first sweep point has one or two components. A run that raises, whatever
  the exception, has sent no finish notification.
\<close>

theorem finish_once_on_return:
  assumes "run fm md s = (res, s')"
  shows "(\<forall>tbl. res = Inr tbl
            \<and> (md = ''2D'' \<longrightarrow>
                 (\<exists>P. get_sweep_points s = Inr P \<and> (first_size P = Inr 1 \<or> first_size P = Inr 2)))
            \<longrightarrow> finishes s'
                  = finishes s @ map Finish [0..<length (sweep_functions s)] @ [DetFinish])
       \<and> (\<forall>e. res = Inl e \<longrightarrow> finishes s' = finishes s)"
proof -
  let ?s1 = "create_experimentaldata_dataset (s\<lparr>mode := md\<rparr>)"
  have s1: "finishes (create_experimentaldata_dataset (s\<lparr>mode := m\<rparr>)) = finishes s"
    "sweep_functions (create_experimentaldata_dataset (s\<lparr>mode := m\<rparr>)) = sweep_functions s"
    "get_sweep_points (create_experimentaldata_dataset (s\<lparr>mode := m\<rparr>)) = get_sweep_points s"
    "mode (create_experimentaldata_dataset (s\<lparr>mode := m\<rparr>)) = m" for m
    by (simp_all add: create_experimentaldata_dataset_def finishes_def get_sweep_points_def)
  let ?inner = "if md = ''1D'' then measure_mc ?s1
            else if md = ''2D'' then measure_2D ?s1
            else if md = ''adaptive'' then measure_soft_adaptive fm ?s1
            else (Inl ModeNotRecognized, ?s1)"
  obtain a s2 where i: "?inner = (a, s2)" by (cases ?inner) blast
  have "run fm md s = (case ?inner of (Inl e, s2) \<Rightarrow> (Inl e, s2)
                       | (Inr u, s2) \<Rightarrow> (Inr (rows (dset s2)), s2))"
    by (simp only: run_def Let_def s1(4))
  then have r: "run fm md s
      = (case a of Inl e \<Rightarrow> (Inl e, s2) | Inr u \<Rightarrow> (Inr (rows (dset s2)), s2))"
    unfolding i by (cases a) simp_all
  have s': "s' = s2" using r assms by (simp split: sum.splits)
  have kind: "(\<exists>e. res = Inl e \<and> a = Inl e) \<or> (\<exists>tbl u. res = Inr tbl \<and> a = Inr u)"
    using r assms by (auto split: sum.splits)
  have fr: "finishes s2
       = finishes s
         @ (case a of Inl e \<Rightarrow> []
            | Inr u \<Rightarrow>
                if md = ''2D'' \<longrightarrow>
                   (\<exists>P. get_sweep_points s = Inr P
                        \<and> (first_size P = Inr 1 \<or> first_size P = Inr 2))
                then map Finish [0..<length (sweep_functions s)] @ [DetFinish] else [])"
  proof -
    show ?thesis
    proof (cases "md = ''1D''")
      case True
      from i have m: "measure_mc ?s1 = (a, s2)" unfolding if_P[OF True] .
      from True have "md \<noteq> ''2D''" by simp
      with measure_mc_finishes[OF m] show ?thesis
        by (cases a) (simp_all add: s1(1,2))
    next
      case n1: False
      show ?thesis
      proof (cases "md = ''2D''")
        case True
        from i have m: "measure_2D ?s1 = (a, s2)" unfolding if_not_P[OF n1] if_P[OF True] .
        from measure_2D_finishes[OF m] True show ?thesis
          by (cases a) (simp_all add: s1(1,2,3))
      next
        case n2: False
        show ?thesis
        proof (cases "md = ''adaptive''")
          case True
          from i have m: "measure_soft_adaptive fm ?s1 = (a, s2)"
            unfolding if_not_P[OF n1] if_not_P[OF n2] if_P[OF True] .
          from measure_soft_adaptive_finishes[OF m] n2 show ?thesis
            by (cases a) (simp_all add: s1(1,2))
        next
          case n3: False
          from i have "(Inl ModeNotRecognized, ?s1) = (a, s2)"
            unfolding if_not_P[OF n1] if_not_P[OF n2] if_not_P[OF n3] .
          then have "a = Inl ModeNotRecognized" "s2 = ?s1" by simp_all
          then show ?thesis by (simp add: s1(1))
        qed
      qed
    qed
  qed
  show ?thesis
  proof (intro conjI allI impI)
    fix tbl
    assume h: "res = Inr tbl
            \<and> (md = ''2D'' \<longrightarrow>
                 (\<exists>P. get_sweep_points s = Inr P \<and> (first_size P = Inr 1 \<or> first_size P = Inr 2)))"
    with kind obtain u where "a = Inr u" by auto
    with fr h show "finishes s'
        = finishes s @ map Finish [0..<length (sweep_functions s)] @ [DetFinish]"
      by (simp add: s')
  next
    fix e
    assume "res = Inl e"
    with kind have "a = Inl e" by auto
    with fr show "finishes s' = finishes s" by (simp add: s')
  qed
qed

theorem finish_once_on_return_witness:
  "run example_optimizer ''1D'' example_engine
     = (Inr [[0, 0], [1, 2], [2, 4]], snd (run example_optimizer ''1D'' example_engine))
   \<and> ''1D'' \<noteq> ''2D''
   \<and> finishes (snd (run example_optimizer ''1D'' example_engine)) = [Finish 0, DetFinish]
   \<and> run example_optimizer ''1D'' three_hard_engine
     = (Inl HardNotGeneralized, snd (run example_optimizer ''1D'' three_hard_engine))
   \<and> finishes (snd (run example_optimizer ''1D'' three_hard_engine)) = []"
proof -
  have r1: "run example_optimizer ''1D'' example_engine
     = (Inr [[0, 0], [1, 2], [2, 4]], snd (run example_optimizer ''1D'' example_engine))"
    by (simp add: run_def example_engine_def example_detector_def
          create_experimentaldata_dataset_def measure_mc_def measure_soft_static_def
          measurement_function_def notify_def resize_def h5_assign1_def finish_all_def Let_def)
  have m: "''1D'' \<noteq> ''2D''" by simp
  have f0: "finishes example_engine = []" "length (sweep_functions example_engine) = 1"
    by (simp_all add: example_engine_def finishes_def)
  have h1: "Inr [[0, 0], [1, 2], [2, 4 :: real]] = Inr [[0, 0], [1, 2], [2, 4]]
      \<and> (''1D'' = ''2D'' \<longrightarrow>
           (\<exists>P. get_sweep_points example_engine = Inr P
                \<and> (first_size P = Inr 1 \<or> first_size P = Inr 2)))"
    by simp
  note ok = finish_once_on_return[OF r1, THEN conjunct1, rule_format, OF h1]
  have f1: "finishes (snd (run example_optimizer ''1D'' example_engine))
      = [Finish 0, DetFinish]"
    using ok by (simp add: f0)
  have r2: "run example_optimizer ''1D'' three_hard_engine
     = (Inl HardNotGeneralized, snd (run example_optimizer ''1D'' three_hard_engine))"
    by (simp add: run_def measure_mc_def measure_hard_part_def three_hard_engine_def
          hard_engine_def example_engine_def block_detector_def
          create_experimentaldata_dataset_def notify_def Let_def eval_nat_numeral)
  have f3: "finishes three_hard_engine = []"
    by (simp add: three_hard_engine_def hard_engine_def example_engine_def
          create_experimentaldata_dataset_def finishes_def)
  note err = finish_once_on_return[OF r2, THEN conjunct2, rule_format, OF refl]
  have f2: "finishes (snd (run example_optimizer ''1D'' three_hard_engine)) = []"
    using err by (simp add: f3)
  from r1 m f1 r2 f2 show ?thesis by blast
qed

end
